theory Spec2Isabelle
  imports Complex_Main "HOL-Library.Log_Nat"
begin

section \<open>X-Ray Threat Detector: a shallow embedding of \<^verbatim>\<open>app.py\<close>\<close>

text \<open>
  The application is one Python module. The parts embedded here are the threat catalog and
  its lookup, \<^verbatim>\<open>clean_class_name\<close>, the class-name and model loaders, \<^verbatim>\<open>predict\<close>,
  the background helper \<^verbatim>\<open>get_bg_css\<close>, the result card of \<^verbatim>\<open>render_results\<close> and
  the Convert handler of \<^verbatim>\<open>render_image_converter\<close>.

  Conventions. Python strings are \<^typ>\<open>string\<close>. A raised exception is the \<open>Inl\<close> branch of
  a sum. A finite Python float is the rational number it denotes (type \<^typ>\<open>rat\<close>); where
  the source computes with floats, the rounding of IEEE binary64 is written out (\<open>fl\<close> below).
  Calls into NumPy, Pillow, pathlib and the interpreter of the model are library code: their
  documented behaviour is modelled next to the place that calls them.
\<close>

subsection \<open>Exceptions\<close>

datatype error =
    ValueError
  | IndexError
  | KeyError
  | FileNotFoundError

subsection \<open>Threat metadata\<close>

text \<open>
  \<^verbatim>\<open>THREAT_INFO\<close> is a dict of dicts with the keys risk, color, icon and desc. The default
  dict that \<^verbatim>\<open>render_results\<close> passes to \<^verbatim>\<open>dict.get\<close> has no icon key, hence the option.
  The dict keeps insertion order, so it is an association list.
\<close>

record threat_info =
  risk :: string
  color :: string
  icon :: "string option"
  desc :: string

definition THREAT_INFO :: "(string \<times> threat_info) list" where
  "THREAT_INFO =
    [(''Battery'', \<lparr>risk = ''Medium'', color = ''#f0ad4e'',
        icon = Some ''https://cdn-icons-png.flaticon.com/512/3659/3659898.png'',
        desc = ''Lithium batteries can pose fire risks in cargo.''\<rparr>),
     (''Scissors'', \<lparr>risk = ''Medium'', color = ''#f0ad4e'',
        icon = Some ''https://cdn-icons-png.flaticon.com/512/2544/2544tried.png'',
        desc = ''Scissors with blades over 6 cm are restricted.''\<rparr>),
     (''Hammer'', \<lparr>risk = ''Medium'', color = ''#f0ad4e'',
        icon = Some ''https://cdn-icons-png.flaticon.com/512/595/595584.png'',
        desc = ''Blunt-force tools are prohibited in carry-on luggage.''\<rparr>),
     (''Pliers'', \<lparr>risk = ''Medium'', color = ''#f0ad4e'',
        icon = Some ''https://cdn-icons-png.flaticon.com/512/595/595584.png'',
        desc = ''Hand tools over 7 cm are restricted in cabins.''\<rparr>),
     (''Wrench'', \<lparr>risk = ''Medium'', color = ''#f0ad4e'',
        icon = Some ''https://cdn-icons-png.flaticon.com/512/595/595584.png'',
        desc = ''Heavy tools are not allowed as carry-on items.''\<rparr>),
     (''Explosive'', \<lparr>risk = ''Critical'', color = ''#d9534f'',
        icon = Some ''https://cdn-icons-png.flaticon.com/512/2785/2785819.png'',
        desc = ''Explosive materials are strictly prohibited.''\<rparr>),
     (''Bullet'', \<lparr>risk = ''High'', color = ''#d9534f'',
        icon = Some ''https://cdn-icons-png.flaticon.com/512/2785/2785819.png'',
        desc = ''Ammunition is banned from all passenger flights.''\<rparr>),
     (''Knife'', \<lparr>risk = ''High'', color = ''#d9534f'',
        icon = Some ''https://cdn-icons-png.flaticon.com/512/3460/3460996.png'',
        desc = ''Knives of any length are prohibited in carry-on.''\<rparr>),
     (''Cutter'', \<lparr>risk = ''High'', color = ''#d9534f'',
        icon = Some ''https://cdn-icons-png.flaticon.com/512/3460/3460996.png'',
        desc = ''Box cutters and blades are strictly forbidden.''\<rparr>),
     (''Lighter'', \<lparr>risk = ''Low'', color = ''#5bc0de'',
        icon = Some ''https://cdn-icons-png.flaticon.com/512/785/785116.png'',
        desc = ''One disposable lighter is allowed on person only.''\<rparr>)]"

definition unknown_info :: threat_info where
  \<comment> \<open>the default argument of \<^verbatim>\<open>THREAT_INFO.get\<close> in \<^verbatim>\<open>render_results\<close>\<close>
  "unknown_info =
     \<lparr>risk = ''Unknown'', color = ''#94a3b8'', icon = None,
      desc = ''No additional information available.''\<rparr>"

definition dict_get :: "('k \<times> 'v) list \<Rightarrow> 'k \<Rightarrow> 'v \<Rightarrow> 'v" where
  \<comment> \<open>\<^verbatim>\<open>d.get(key, default)\<close>\<close>
  "dict_get d k dflt = (case map_of d k of Some v \<Rightarrow> v | None \<Rightarrow> dflt)"

definition dict_item :: "('k \<times> 'v) list \<Rightarrow> 'k \<Rightarrow> error + 'v" where
  \<comment> \<open>\<^verbatim>\<open>d[key]\<close>, which raises KeyError on a missing key\<close>
  "dict_item d k = (case map_of d k of Some v \<Rightarrow> Inr v | None \<Rightarrow> Inl KeyError)"

definition threat_lookup :: "string \<Rightarrow> threat_info" where
  \<comment> \<open>\<^verbatim>\<open>info = THREAT_INFO.get(predicted_class, {...})\<close>\<close>
  "threat_lookup predicted_class = dict_get THREAT_INFO predicted_class unknown_info"

subsection \<open>Class names\<close>

text \<open>
  \<^verbatim>\<open>raw_name.split("_", 1)\<close> cuts at the first separator only: the result has one part when
  the separator does not occur and two parts otherwise.
\<close>

fun split_first :: "char \<Rightarrow> string \<Rightarrow> string list" where
  "split_first sep [] = [[]]"
| "split_first sep (c # cs) =
     (if c = sep then [[], cs]
      else (case split_first sep cs of
              [] \<Rightarrow> [[c]]
            | p # ps \<Rightarrow> (c # p) # ps))"

definition clean_class_name :: "string \<Rightarrow> string" where
  "clean_class_name raw_name =
     (let parts = split_first (CHR ''_'') raw_name
      in if length parts = 2 then parts ! 1 else raw_name)"

subsection \<open>Files read by the application\<close>

text \<open>
  The three paths under the project root, each either missing (\<open>None\<close>) or a readable file.
  The model file is kept as the interpreter it loads to, the \<^verbatim>\<open>.npy\<close> file as the array
  of raw names it holds, the background image as its bytes.
\<close>

record 'm disk =
  MODEL_PATH :: "'m option"
  CLASS_NAMES_PATH :: "string list option"
  BG_IMAGE_PATH :: "nat list option"

definition load_model :: "'m disk \<Rightarrow> error + 'm" where
  \<comment> \<open>\<^verbatim>\<open>tf.lite.Interpreter(model_path=...)\<close> raises ValueError when the file cannot be opened\<close>
  "load_model d = (case MODEL_PATH d of None \<Rightarrow> Inl ValueError | Some m \<Rightarrow> Inr m)"

definition load_class_names :: "'m disk \<Rightarrow> error + string list" where
  \<comment> \<open>\<^verbatim>\<open>np.load\<close> raises FileNotFoundError on a missing file\<close>
  "load_class_names d =
     (case CLASS_NAMES_PATH d of
        None \<Rightarrow> Inl FileNotFoundError
      | Some raw_names \<Rightarrow> Inr (map clean_class_name raw_names))"

subsection \<open>Inference\<close>

text \<open>
  \<^verbatim>\<open>np.argmax\<close> scans the vector once, keeps the first element as the best so far and
  replaces it only by a strictly greater one; on an empty vector it raises ValueError.
  The entries are finite floats (a softmax output holds no NaN), compared as the rationals
  they denote.
\<close>

fun argmax_loop :: "rat list \<Rightarrow> nat \<Rightarrow> nat \<Rightarrow> rat \<Rightarrow> nat" where
  "argmax_loop [] i best_i best = best_i"
| "argmax_loop (x # xs) i best_i best =
     (if best < x then argmax_loop xs (Suc i) i x
      else argmax_loop xs (Suc i) best_i best)"

definition np_argmax :: "rat list \<Rightarrow> error + nat" where
  "np_argmax probs =
     (case probs of [] \<Rightarrow> Inl ValueError | x # xs \<Rightarrow> Inr (argmax_loop xs 1 0 x))"

definition list_item :: "'a list \<Rightarrow> nat \<Rightarrow> error + 'a" where
  \<comment> \<open>\<^verbatim>\<open>xs[i]\<close> for a non-negative index\<close>
  "list_item xs i = (if i < length xs then Inr (xs ! i) else Inl IndexError)"

text \<open>
  \<open>forward interpreter img\<close> stands for preprocessing, \<^verbatim>\<open>interpreter.invoke()\<close> and
  reading \<^verbatim>\<open>output[0]\<close>: the probability vector of the forward pass.
\<close>

definition predict ::
  "'m disk \<Rightarrow> ('m \<Rightarrow> 'img \<Rightarrow> rat list) \<Rightarrow> 'm \<Rightarrow> 'img \<Rightarrow> error + (string \<times> rat \<times> rat list)"
where
  "predict d forward interpreter img =
     (case load_class_names d of
        Inl e \<Rightarrow> Inl e
      | Inr class_names \<Rightarrow>
          (let probs = forward interpreter img in
           case np_argmax probs of
             Inl e \<Rightarrow> Inl e
           | Inr top_idx \<Rightarrow>
               (case list_item probs top_idx of
                  Inl e \<Rightarrow> Inl e
                | Inr confidence \<Rightarrow>
                    (case list_item class_names top_idx of
                       Inl e \<Rightarrow> Inl e
                     | Inr predicted_class \<Rightarrow> Inr (predicted_class, confidence, probs)))))"

subsection \<open>Floats\<close>

text \<open>
  Rounding to the nearest binary64 value, ties to even: the significand has 53 bits, the unit
  in the last place of \<open>x\<close> is \<open>2\<close> to the power \<open>\<lfloor>log\<^sub>2 \<bar>x\<bar>\<rfloor> - 52\<close>, and not below
  \<open>2\<close> to the power \<open>-1074\<close> (subnormal numbers). Overflow to infinity is not modelled: no
  value of this program comes near the largest binary64 number.
\<close>

definition pow2 :: "int \<Rightarrow> rat" where
  "pow2 e = (if 0 \<le> e then 2 ^ nat e else 1 / 2 ^ nat (- e))"

definition round_half_even :: "rat \<Rightarrow> int" where
  "round_half_even x =
     (let f = \<lfloor>x\<rfloor>; d = x - of_int f
      in if d < 1 / 2 then f else if 1 / 2 < d then f + 1 else if even f then f else f + 1)"

definition float_exponent :: "rat \<Rightarrow> int" where
  \<comment> \<open>\<open>\<lfloor>log\<^sub>2 x\<rfloor>\<close> for \<open>0 < x\<close>, from the bit lengths of numerator and denominator\<close>
  "float_exponent x =
     (let (p, q) = quotient_of x; e = bitlen p - bitlen q
      in if pow2 e \<le> x then e else e - 1)"

definition fl :: "rat \<Rightarrow> rat" where
  "fl x =
     (if x = 0 then 0
      else let a = \<bar>x\<bar>; u = pow2 (max (float_exponent a) (- 1022) - 52)
           in sgn x * of_int (round_half_even (a / u)) * u)"

definition py_int :: "rat \<Rightarrow> int" where
  \<comment> \<open>\<^verbatim>\<open>int(x)\<close> of a float truncates towards zero\<close>
  "py_int x = (if 0 \<le> x then \<lfloor>x\<rfloor> else \<lceil>x\<rceil>)"

definition true_div :: "int \<Rightarrow> int \<Rightarrow> rat" where
  \<comment> \<open>\<^verbatim>\<open>a / b\<close> of two ints, \<open>b \<noteq> 0\<close>: the correctly rounded quotient\<close>
  "true_div a b = fl (of_int a / of_int b)"

subsection \<open>Strings\<close>

definition lower_char :: "char \<Rightarrow> char" where
  "lower_char c =
     (let n = (of_char c :: nat) in if 65 \<le> n \<and> n \<le> 90 then char_of (n + 32) else c)"

definition str_lower :: "string \<Rightarrow> string" where
  \<comment> \<open>\<^verbatim>\<open>s.lower()\<close> on ASCII text\<close>
  "str_lower s = map lower_char s"

definition digit_char :: "nat \<Rightarrow> char" where
  "digit_char n = char_of (48 + n)"

fun str_nat :: "nat \<Rightarrow> string" where
  "str_nat n = (if n < 10 then [digit_char n] else str_nat (n div 10) @ [digit_char (n mod 10)])"

declare str_nat.simps [simp del]

definition str_int :: "int \<Rightarrow> string" where
  \<comment> \<open>\<^verbatim>\<open>str(n)\<close> of an int\<close>
  "str_int n = (if n < 0 then CHR ''-'' # str_nat (nat (- n)) else str_nat (nat n))"

subsection \<open>Background image helper\<close>

text \<open>
  \<open>css_head\<close> and \<open>css_tail\<close> are the text of the f-string before and after its
  \<^verbatim>\<open>{data}\<close> field, \<open>b64encode\<close> is \<^verbatim>\<open>base64.b64encode(...).decode()\<close>.
\<close>

definition get_bg_css :: "(nat list \<Rightarrow> string) \<Rightarrow> string \<Rightarrow> string \<Rightarrow> 'm disk \<Rightarrow> string" where
  "get_bg_css b64encode css_head css_tail d =
     (case BG_IMAGE_PATH d of
        Some bytes \<Rightarrow> css_head @ b64encode bytes @ css_tail
      | None \<Rightarrow> [])"

subsection \<open>Prediction results\<close>

text \<open>
  The local variables of \<^verbatim>\<open>render_results\<close> when it emits the top result card. The two
  percentage strings of the card are left out.
\<close>

record result_card =
  predicted_class :: string
  confidence :: rat
  info :: threat_info
  risk_class :: string
  is_uncertain :: bool
  display_name :: string
  display_risk :: string
  display_desc :: string
  conf_color :: string

definition top_result_card :: "string \<Rightarrow> rat \<Rightarrow> result_card" where
  "top_result_card predicted confid =
     (let inf = threat_lookup predicted;
          rsk = risk inf;
          rsk_class = ''risk-'' @ str_lower rsk;
          uncertain = (confid < fl (3 / 10))
      in \<lparr>predicted_class = predicted,
          confidence = confid,
          info = inf,
          risk_class = (if uncertain then ''risk-low'' else rsk_class),
          is_uncertain = uncertain,
          display_name = (if uncertain then ''Not Known'' else predicted),
          display_risk = (if uncertain then ''Unknown'' else rsk),
          display_desc =
            (if uncertain
             then ''The model is not confident enough. Closest guess: '' @ predicted @ ''.''
             else desc inf),
          conf_color =
            (if fl (8 / 10) \<le> confid then ''#22c55e''
             else if fl (5 / 10) \<le> confid then ''#eab308''
             else ''#ef4444'')\<rparr>)"

text \<open>
  \<^verbatim>\<open>render_results\<close> loads the class names, emits the card and then one row per entry of
  \<open>probs\<close>, reading \<^verbatim>\<open>class_names[idx]\<close> for every index of \<open>probs\<close>. The result is the
  list of cards emitted and the exception raised, if any; the rows themselves are not
  modelled.
\<close>

definition render_results ::
  "'m disk \<Rightarrow> string \<Rightarrow> rat \<Rightarrow> rat list \<Rightarrow> result_card list \<times> error option"
where
  "render_results d predicted confid probs =
     (case load_class_names d of
        Inl e \<Rightarrow> ([], Some e)
      | Inr class_names \<Rightarrow>
          ([top_result_card predicted confid],
           if length probs \<le> length class_names then None else Some IndexError))"

subsection \<open>Main app\<close>

text \<open>
  \<^verbatim>\<open>main\<close> injects the background style first; the scanner tab loads the model and
  predicts only when a file has been uploaded. The page is the background style and the
  cards shown, with the exception that ended the run, if any. The converter tab is the
  separate handler \<open>render_image_converter\<close> below; the static markup is left out.
\<close>

record page =
  bg_css :: string
  cards :: "result_card list"
  raised :: "error option"

definition main ::
  "(nat list \<Rightarrow> string) \<Rightarrow> string \<Rightarrow> string \<Rightarrow> ('m \<Rightarrow> 'img \<Rightarrow> rat list) \<Rightarrow>
   'm disk \<Rightarrow> 'img option \<Rightarrow> page"
where
  "main b64encode css_head css_tail forward d uploaded_file =
     (let css = get_bg_css b64encode css_head css_tail d in
      case uploaded_file of
        None \<Rightarrow> \<lparr>bg_css = css, cards = [], raised = None\<rparr>
      | Some img \<Rightarrow>
          (case load_model d of
             Inl e \<Rightarrow> \<lparr>bg_css = css, cards = [], raised = Some e\<rparr>
           | Inr interpreter \<Rightarrow>
               (case predict d forward interpreter img of
                  Inl e \<Rightarrow> \<lparr>bg_css = css, cards = [], raised = Some e\<rparr>
                | Inr (predicted, confid, probs) \<Rightarrow>
                    (let (shown, err) = render_results d predicted confid probs
                     in \<lparr>bg_css = css, cards = shown, raised = err\<rparr>))))"

subsection \<open>Image converter: formats, file names, sizes\<close>

record format_info =
  ext :: string
  mime :: string
  pillow :: string

definition FORMAT_OPTIONS :: "(string \<times> format_info) list" where
  "FORMAT_OPTIONS =
    [(''PNG'', \<lparr>ext = ''png'', mime = ''image/png'', pillow = ''PNG''\<rparr>),
     (''JPEG'', \<lparr>ext = ''jpg'', mime = ''image/jpeg'', pillow = ''JPEG''\<rparr>),
     (''BMP'', \<lparr>ext = ''bmp'', mime = ''image/bmp'', pillow = ''BMP''\<rparr>),
     (''GIF'', \<lparr>ext = ''gif'', mime = ''image/gif'', pillow = ''GIF''\<rparr>),
     (''TIFF'', \<lparr>ext = ''tiff'', mime = ''image/tiff'', pillow = ''TIFF''\<rparr>),
     (''WEBP'', \<lparr>ext = ''webp'', mime = ''image/webp'', pillow = ''WEBP''\<rparr>),
     (''ICO'', \<lparr>ext = ''ico'', mime = ''image/x-icon'', pillow = ''ICO''\<rparr>)]"

text \<open>
  \<^verbatim>\<open>Path(name).stem\<close> on a POSIX path: the name is the last component of the path
  (empty components and \<^verbatim>\<open>.\<close> are dropped), and the stem is the name up to its last dot,
  provided that dot is neither the first nor the last character of the name.
\<close>

fun split_all :: "char \<Rightarrow> string \<Rightarrow> string list" where
  "split_all sep [] = [[]]"
| "split_all sep (c # cs) =
     (if c = sep then [] # split_all sep cs
      else (case split_all sep cs of
              [] \<Rightarrow> [[c]]
            | p # ps \<Rightarrow> (c # p) # ps))"

definition path_name :: "string \<Rightarrow> string" where
  "path_name s =
     (let parts = filter (\<lambda>p. p \<noteq> [] \<and> p \<noteq> ''.'') (split_all (CHR ''/'') s)
      in if parts = [] then [] else last parts)"

definition str_rfind :: "char \<Rightarrow> string \<Rightarrow> int" where
  \<comment> \<open>\<^verbatim>\<open>s.rfind(c)\<close>: the last index of \<open>c\<close>, or \<open>-1\<close>\<close>
  "str_rfind c s =
     (let found = filter (\<lambda>i. s ! i = c) [0..<length s]
      in if found = [] then - 1 else int (last found))"

definition path_stem :: "string \<Rightarrow> string" where
  "path_stem s =
     (let name = path_name s; i = str_rfind (CHR ''.'') name
      in if 0 < i \<and> i < int (length name) - 1 then take (nat i) name else name)"

definition out_name :: "string \<Rightarrow> format_info \<Rightarrow> string" where
  \<comment> \<open>\<^verbatim>\<open>orig_stem + "_converted." + fmt_info["ext"]\<close>\<close>
  "out_name file_name fmt_info = path_stem file_name @ ''_converted.'' @ ext fmt_info"

text \<open>
  \<^verbatim>\<open>str(round(x, ndigits))\<close> of a float: \<^verbatim>\<open>round\<close> gives the float nearest to the decimal
  with \<open>ndigits\<close> fractional digits that is nearest to \<open>x\<close> (ties to the even digit), and
  \<^verbatim>\<open>str\<close> prints the shortest decimal that reads back as that float, which is that decimal
  itself as long as it has at most 15 significant digits: its digits without trailing
  zeros, and at least one fractional digit.
\<close>

fun strip_zeros :: "string \<Rightarrow> string" where
  \<comment> \<open>drops the trailing zeros of a reversed digit string\<close>
  "strip_zeros [] = []"
| "strip_zeros (c # cs) = (if c = CHR ''0'' then strip_zeros cs else c # cs)"

definition frac_digits :: "nat \<Rightarrow> nat \<Rightarrow> string" where
  \<comment> \<open>the \<open>ndigits\<close> digits of \<open>f < 10 ^ ndigits\<close>, trailing zeros removed, never empty\<close>
  "frac_digits ndigits f =
     (let ds = str_nat f;
          padded = replicate (ndigits - length ds) (CHR ''0'') @ ds;
          kept = rev (strip_zeros (rev padded))
      in if kept = [] then ''0'' else kept)"

definition str_decimal :: "nat \<Rightarrow> bool \<Rightarrow> nat \<Rightarrow> string" where
  \<comment> \<open>prints \<open>m / 10 ^ ndigits\<close>, with a minus sign when \<open>neg\<close>\<close>
  "str_decimal ndigits neg m =
     (if neg then ''-'' else []) @ str_nat (m div 10 ^ ndigits) @ ''.'' @
     frac_digits ndigits (m mod 10 ^ ndigits)"

definition str_round :: "rat \<Rightarrow> nat \<Rightarrow> string" where
  "str_round x ndigits =
     str_decimal ndigits (x < 0) (nat (round_half_even (\<bar>x\<bar> * 10 ^ ndigits)))"

definition size_str :: "nat \<Rightarrow> string" where
  "size_str file_size =
     (if file_size < 1024 then str_int (int file_size) @ '' B''
      else if file_size < 1024 * 1024
        then str_round (true_div (int file_size) 1024) 1 @ '' KB''
        else str_round (true_div (int file_size) (1024 * 1024)) 2 @ '' MB'')"

subsection \<open>Image converter: the working image\<close>

text \<open>
  A Pillow image is its mode, its size (width, height) and its pixel data. The pixel data
  is kept as the term of Pillow operations that produced it from the uploaded pixels, so
  that two images are equal exactly when the same operations were applied.
\<close>

datatype 'p pixels =
    Uploaded 'p
  | Resized "'p pixels" "int \<times> int"
  | Solid "int \<times> int \<times> int"
  | Band "'p pixels" nat
  | Pasted "'p pixels" "'p pixels" "'p pixels"
  | Converted "'p pixels" string

record 'p pil_image =
  im_mode :: string
  im_size :: "int \<times> int"
  im_data :: "'p pixels"

definition pil_resize :: "'p pil_image \<Rightarrow> int \<times> int \<Rightarrow> error + 'p pil_image" where
  \<comment> \<open>\<^verbatim>\<open>im.resize(size, Image.LANCZOS)\<close>: a copy when the size is unchanged, ValueError
      (height and width must be > 0) when a side is below 1\<close>
  "pil_resize im sz =
     (if im_size im = sz then Inr im
      else if fst sz < 1 \<or> snd sz < 1 then Inl ValueError
      else Inr (im\<lparr>im_size := sz, im_data := Resized (im_data im) sz\<rparr>))"

definition pil_new :: "string \<Rightarrow> int \<times> int \<Rightarrow> int \<times> int \<times> int \<Rightarrow> 'p pil_image" where
  \<comment> \<open>\<^verbatim>\<open>Image.new(mode, size, color)\<close>\<close>
  "pil_new m sz col = \<lparr>im_mode = m, im_size = sz, im_data = Solid col\<rparr>"

definition band_count :: "string \<Rightarrow> nat" where
  \<comment> \<open>the number of bands of a Pillow mode\<close>
  "band_count m =
     (if m \<in> set [''RGBA'', ''CMYK'', ''RGBX'', ''RGBa''] then 4
      else if m \<in> set [''RGB'', ''YCbCr'', ''LAB'', ''HSV''] then 3
      else if m \<in> set [''LA'', ''PA'', ''La''] then 2
      else 1)"

definition pil_split :: "'p pil_image \<Rightarrow> 'p pil_image list" where
  \<comment> \<open>\<^verbatim>\<open>im.split()\<close>: one single-band image per band\<close>
  "pil_split im =
     map (\<lambda>k. \<lparr>im_mode = ''L'', im_size = im_size im, im_data = Band (im_data im) k\<rparr>)
       [0..<band_count (im_mode im)]"

definition pil_paste :: "'p pil_image \<Rightarrow> 'p pil_image \<Rightarrow> 'p pil_image \<Rightarrow> 'p pil_image" where
  \<comment> \<open>\<^verbatim>\<open>bg.paste(im, mask=msk)\<close>: \<open>bg\<close> keeps its mode and size\<close>
  "pil_paste bg im msk = bg\<lparr>im_data := Pasted (im_data bg) (im_data im) (im_data msk)\<rparr>"

definition pil_convert :: "'p pil_image \<Rightarrow> string \<Rightarrow> 'p pil_image" where
  \<comment> \<open>\<^verbatim>\<open>im.convert(mode)\<close>: the size is kept\<close>
  "pil_convert im m = im\<lparr>im_mode := m, im_data := Converted (im_data im) m\<rparr>"

text \<open>The three steps of the Convert handler between the copy and the save.\<close>

definition resize_step ::
  "bool \<Rightarrow> int \<Rightarrow> int \<Rightarrow> 'p pil_image \<Rightarrow> error + 'p pil_image"
where
  \<comment> \<open>Resize if requested\<close>
  "resize_step resize new_w new_h out_image =
     (if resize then pil_resize out_image (new_w, new_h) else Inr out_image)"

definition alpha_step :: "string \<Rightarrow> 'p pil_image \<Rightarrow> error + 'p pil_image" where
  \<comment> \<open>Convert RGBA to RGB for formats that don't support alpha\<close>
  "alpha_step target_format out_image =
     (if target_format \<in> set [''JPEG'', ''BMP'', ''ICO''] \<and> im_mode out_image = ''RGBA''
      then (let bg = pil_new ''RGB'' (im_size out_image) (255, 255, 255)
            in case list_item (pil_split out_image) 3 of
                 Inl e \<Rightarrow> Inl e
               | Inr msk \<Rightarrow> Inr (pil_paste bg out_image msk))
      else if target_format = ''JPEG'' \<and> im_mode out_image \<noteq> ''RGB''
      then Inr (pil_convert out_image ''RGB'')
      else Inr out_image)"

definition ico_step :: "string \<Rightarrow> 'p pil_image \<Rightarrow> error + 'p pil_image" where
  \<comment> \<open>ICO size limit\<close>
  "ico_step target_format out_image =
     (if target_format = ''ICO''
      then (let max_dim = max (fst (im_size out_image)) (snd (im_size out_image))
            in if 256 < max_dim
               then (let ratio = fl (256 / fl (of_int max_dim))
                     in pil_resize out_image
                          (py_int (fl (fl (of_int (fst (im_size out_image))) * ratio)),
                           py_int (fl (fl (of_int (snd (im_size out_image))) * ratio))))
               else Inr out_image)
      else Inr out_image)"

definition working_image ::
  "string \<Rightarrow> bool \<Rightarrow> int \<Rightarrow> int \<Rightarrow> 'p pil_image \<Rightarrow> error + 'p pil_image"
where
  "working_image target_format resize new_w new_h conv_image =
     (case resize_step resize new_w new_h conv_image of
        Inl e \<Rightarrow> Inl e
      | Inr resized \<Rightarrow>
          (case alpha_step target_format resized of
             Inl e \<Rightarrow> Inl e
           | Inr flat \<Rightarrow> ico_step target_format flat))"

text \<open>
  The Convert handler. \<open>save out_image format quality\<close> is \<^verbatim>\<open>out_image.save(buf, ...)\<close>:
  the encoded bytes, or the exception of the encoder.
\<close>

record 'p conversion =
  out_image :: "'p pil_image"
  file_size_str :: string
  file_name :: string
  mime_type :: string
  buf :: "nat list"

definition render_image_converter ::
  "('p pil_image \<Rightarrow> string \<Rightarrow> int option \<Rightarrow> error + nat list) \<Rightarrow>
   string \<Rightarrow> 'p pil_image \<Rightarrow> string \<Rightarrow> int \<Rightarrow> bool \<Rightarrow> int \<Rightarrow> int \<Rightarrow> error + 'p conversion"
where
  "render_image_converter save conv_file_name conv_image target_format quality
     resize new_w new_h =
     (case dict_item FORMAT_OPTIONS target_format of
        Inl e \<Rightarrow> Inl e
      | Inr fmt_info \<Rightarrow>
          (case working_image target_format resize new_w new_h conv_image of
             Inl e \<Rightarrow> Inl e
           | Inr out \<Rightarrow>
               (case save out (pillow fmt_info)
                       (if target_format \<in> set [''JPEG'', ''WEBP''] then Some quality else None) of
                  Inl e \<Rightarrow> Inl e
                | Inr bytes \<Rightarrow>
                    Inr \<lparr>out_image = out,
                         file_size_str = size_str (length bytes),
                         file_name = out_name conv_file_name fmt_info,
                         mime_type = mime fmt_info,
                         buf = bytes\<rparr>)))"

subsection \<open>Reference notions: path components and decimal numerals\<close>

text \<open>
  These definitions are not taken from the source. They say what the strings of the
  converter are compared with: a path as its components joined by \<open>/\<close>, the final component
  that is neither empty nor a single dot, and the decimal numeral of a natural number
  (digits only, no leading zero, with the number as its value).
\<close>

fun join_path :: "string list \<Rightarrow> string" where
  "join_path [] = []"
| "join_path [x] = x"
| "join_path (x # y # ys) = x @ CHR ''/'' # join_path (y # ys)"

definition final_name :: "string list \<Rightarrow> string" where
  "final_name segs =
     (let kept = filter (\<lambda>p. p \<noteq> [] \<and> p \<noteq> ''.'') segs
      in if kept = [] then [] else last kept)"

definition numeral_value :: "string \<Rightarrow> nat" where
  "numeral_value ds = foldl (\<lambda>a c. 10 * a + (of_char c - 48)) 0 ds"

definition decimal_numeral :: "string \<Rightarrow> nat \<Rightarrow> bool" where
  "decimal_numeral ds k \<longleftrightarrow>
     ds \<noteq> [] \<and> set ds \<subseteq> set ''0123456789'' \<and> (hd ds = CHR ''0'' \<longrightarrow> ds = ''0'') \<and>
     numeral_value ds = k"

section \<open>Properties\<close>

subsection \<open>Class names and prediction\<close>

lemma split_first_no_sep: "sep \<notin> set s \<Longrightarrow> split_first sep s = [s]"
  by (induction s) auto

lemma split_first_sep: "sep \<notin> set a \<Longrightarrow> split_first sep (a @ sep # b) = [a, b]"
  by (induction a) auto

lemma clean_no_underscore: "CHR ''_'' \<notin> set raw \<Longrightarrow> clean_class_name raw = raw"
  by (simp add: clean_class_name_def split_first_no_sep)

lemma clean_first_underscore:
  "CHR ''_'' \<notin> set a \<Longrightarrow> clean_class_name (a @ CHR ''_'' # b) = b"
  by (simp add: clean_class_name_def split_first_sep)

lemma argmax_loop_spec:
  assumes "length ps = i" "bi < i" "ps ! bi = b" "\<forall>j<i. ps ! j \<le> b" "\<forall>j<bi. ps ! j < b"
  shows "argmax_loop xs i bi b < length (ps @ xs) \<and>
         (\<forall>j<length (ps @ xs). (ps @ xs) ! j \<le> (ps @ xs) ! argmax_loop xs i bi b) \<and>
         (\<forall>j<argmax_loop xs i bi b. (ps @ xs) ! j < (ps @ xs) ! argmax_loop xs i bi b)"
  using assms
proof (induction xs arbitrary: ps i bi b)
  case Nil
  then show ?case by simp
next
  case (Cons x xs)
  show ?case
  proof (cases "b < x")
    case True
    have len: "length (ps @ [x]) = Suc i" using Cons.prems by simp
    have a2: "i < Suc i" by simp
    have a3: "(ps @ [x]) ! i = x" using Cons.prems by (simp add: nth_append)
    have a4: "\<forall>j<Suc i. (ps @ [x]) ! j \<le> x"
      using Cons.prems True by (auto simp: nth_append less_Suc_eq intro: order.trans less_imp_le)
    have a5: "\<forall>j<i. (ps @ [x]) ! j < x"
      using Cons.prems True by (auto simp: nth_append intro: le_less_trans)
    from Cons.IH[OF len a2 a3 a4 a5] True show ?thesis by simp
  next
    case False
    have len: "length (ps @ [x]) = Suc i" using Cons.prems by simp
    have a2: "bi < Suc i" using Cons.prems by simp
    have a3: "(ps @ [x]) ! bi = b" using Cons.prems by (simp add: nth_append)
    have a4: "\<forall>j<Suc i. (ps @ [x]) ! j \<le> b"
      using Cons.prems False by (auto simp: nth_append less_Suc_eq)
    have a5: "\<forall>j<bi. (ps @ [x]) ! j < b"
      using Cons.prems by (auto simp: nth_append)
    from Cons.IH[OF len a2 a3 a4 a5] False show ?thesis by simp
  qed
qed

lemma np_argmax_spec:
  assumes "probs \<noteq> []"
  shows "\<exists>k. np_argmax probs = Inr k \<and> k < length probs \<and>
             (\<forall>j<length probs. probs ! j \<le> probs ! k) \<and> (\<forall>j<k. probs ! j < probs ! k)"
proof -
  from assms obtain x xs where p: "probs = x # xs" by (cases probs) auto
  have "argmax_loop xs 1 0 x < length ([x] @ xs) \<and>
         (\<forall>j<length ([x] @ xs). ([x] @ xs) ! j \<le> ([x] @ xs) ! argmax_loop xs 1 0 x) \<and>
         (\<forall>j<argmax_loop xs 1 0 x. ([x] @ xs) ! j < ([x] @ xs) ! argmax_loop xs 1 0 x)"
    by (rule argmax_loop_spec) auto
  then show ?thesis unfolding p np_argmax_def by simp
qed

lemma max_entry:
  assumes "k < length probs" "\<forall>j<length probs. probs ! j \<le> (probs ! k :: rat)"
  shows "probs ! k = Max (set probs)"
proof -
  have "Max (set probs) = probs ! k"
  proof (rule Max_eqI)
    show "finite (set probs)" by simp
    show "\<And>y. y \<in> set probs \<Longrightarrow> y \<le> probs ! k" using assms(2) by (auto simp: in_set_conv_nth)
    show "probs ! k \<in> set probs" using assms(1) by simp
  qed
  then show ?thesis by simp
qed


text \<open>
  Claim C1. When the class names load and the forward pass yields a non-empty vector
  \<open>probs\<close> with at most as many entries as there are class names, \<open>predict\<close> returns
  the class name at an index \<open>k\<close>, the confidence \<open>Max (set probs)\<close> and \<open>probs\<close> itself,
  where \<open>k\<close> is the first index at which \<open>probs\<close> takes its maximum.
\<close>

theorem predict_argmax:
  fixes forward :: "'m \<Rightarrow> 'img \<Rightarrow> rat list" and interpreter :: 'm and img :: 'img
  defines "probs \<equiv> forward interpreter img"
  assumes names: "load_class_names d = Inr class_names"
    and ne: "probs \<noteq> []"
    and len: "length probs \<le> length class_names"
  shows "\<exists>k. predict d forward interpreter img = Inr (class_names ! k, Max (set probs), probs) \<and>
             k < length probs \<and> probs ! k = Max (set probs) \<and>
             (\<forall>j<k. probs ! j < Max (set probs))"
proof -
  from np_argmax_spec[OF ne] obtain k where k: "np_argmax probs = Inr k" "k < length probs"
    "\<forall>j<length probs. probs ! j \<le> probs ! k" "\<forall>j<k. probs ! j < probs ! k" by blast
  have m: "probs ! k = Max (set probs)" using max_entry k(2,3) by blast
  have "predict d forward interpreter img = Inr (class_names ! k, probs ! k, probs)"
    using names k(1,2) len by (simp add: predict_def list_item_def probs_def Let_def)
  then show ?thesis using k m by auto
qed

theorem predict_argmax_witness:
  "\<exists>k. predict \<lparr>MODEL_PATH = Some (),
                  CLASS_NAMES_PATH = Some [''Class 1_Knife'', ''Class 2_Battery'', ''Gun''],
                  BG_IMAGE_PATH = None\<rparr>
            (\<lambda>m i. [2 / 5, 2 / 5, 1 / 5]) () ()
          = Inr ([''Knife'', ''Battery'', ''Gun''] ! k, Max (set [2 / 5, 2 / 5, 1 / 5]),
                 [2 / 5, 2 / 5, 1 / 5]) \<and>
        k < length [2 / 5, 2 / 5, 1 / 5 :: rat] \<and>
        [2 / 5, 2 / 5, 1 / 5] ! k = Max (set [2 / 5, 2 / 5, 1 / 5 :: rat]) \<and>
        (\<forall>j<k. [2 / 5, 2 / 5, 1 / 5] ! j < Max (set [2 / 5, 2 / 5, 1 / 5 :: rat]))"
proof -
  have h1: "load_class_names \<lparr>MODEL_PATH = Some (),
              CLASS_NAMES_PATH = Some [''Class 1_Knife'', ''Class 2_Battery'', ''Gun''],
              BG_IMAGE_PATH = None\<rparr> = Inr [''Knife'', ''Battery'', ''Gun'']"
    by (simp add: load_class_names_def clean_class_name_def)
  show ?thesis
    using predict_argmax[OF h1, of "\<lambda>m i. [2 / 5, 2 / 5, 1 / 5]" "()" "()"] by simp
qed

text \<open>
  Claim C3. \<open>clean_class_name\<close> cuts at the first underscore only: a name without an
  underscore is returned unchanged, and otherwise the text after the first underscore is
  returned. It is a total function, so it returns on every string.
\<close>

theorem clean_class_name_first_underscore:
  "(CHR ''_'' \<notin> set raw \<longrightarrow> clean_class_name raw = raw) \<and>
   (CHR ''_'' \<notin> set a \<longrightarrow> clean_class_name (a @ ''_'' @ b) = b) \<and>
   clean_class_name ''Class 10_Battery'' = ''Battery'' \<and>
   clean_class_name ''Battery'' = ''Battery'' \<and>
   clean_class_name ''A_B_C'' = ''B_C''"
proof -
  have "clean_class_name (''Class 10'' @ CHR ''_'' # ''Battery'') = ''Battery''"
    by (rule clean_first_underscore) simp
  moreover have "clean_class_name (''A'' @ CHR ''_'' # ''B_C'') = ''B_C''"
    by (rule clean_first_underscore) simp
  moreover have "clean_class_name ''Battery'' = ''Battery''"
    by (rule clean_no_underscore) simp
  ultimately show ?thesis
    using clean_no_underscore[of raw] clean_first_underscore[of a b] by simp
qed

theorem clean_class_name_first_underscore_witness:
  "CHR ''_'' \<notin> set ''Knife'' \<and> clean_class_name ''Knife'' = ''Knife'' \<and>
   CHR ''_'' \<notin> set ''Class 3'' \<and> clean_class_name (''Class 3'' @ ''_'' @ ''Box_Cutter'') = ''Box_Cutter''"
  using clean_class_name_first_underscore[of "''Knife''" "''Class 3''" "''Box_Cutter''"]
  by simp

subsection \<open>Threat catalog\<close>

lemma threat_keys: "map fst THREAT_INFO =
  [''Battery'', ''Scissors'', ''Hammer'', ''Pliers'', ''Wrench'', ''Explosive'', ''Bullet'',
   ''Knife'', ''Cutter'', ''Lighter'']"
  by (simp add: THREAT_INFO_def)

lemma threat_keys_distinct: "distinct (map fst THREAT_INFO)"
  unfolding threat_keys by simp

lemma threat_lookup_member: "(k, v) \<in> set THREAT_INFO \<Longrightarrow> threat_lookup k = v"
  using map_of_is_SomeI[OF threat_keys_distinct] by (simp add: threat_lookup_def dict_get_def)

lemma threat_lookup_absent:
  assumes "name \<notin> set (map fst THREAT_INFO)"
  shows "threat_lookup name = unknown_info"
proof -
  have "map_of THREAT_INFO name = None"
    using assms by (simp add: map_of_eq_None_iff)
  then show ?thesis by (simp add: threat_lookup_def dict_get_def)
qed

text \<open>
  Claim C4. The catalog lookup is a total function: on each of the 10 catalog names it
  returns the record of that name, and on every other name the default record with risk
  Unknown, the gray \<open>#94a3b8\<close> and the generic description.
\<close>

theorem threat_lookup_total:
  "(\<forall>(k, v) \<in> set THREAT_INFO. threat_lookup k = v) \<and>
   map fst THREAT_INFO =
     [''Battery'', ''Scissors'', ''Hammer'', ''Pliers'', ''Wrench'', ''Explosive'', ''Bullet'',
      ''Knife'', ''Cutter'', ''Lighter''] \<and>
   (name \<notin> set (map fst THREAT_INFO) \<longrightarrow>
      threat_lookup name =
        \<lparr>risk = ''Unknown'', color = ''#94a3b8'', icon = None,
         desc = ''No additional information available.''\<rparr>) \<and>
   risk (threat_lookup ''Explosive'') = ''Critical'' \<and>
   risk (threat_lookup ''Lighter'') = ''Low'' \<and>
   risk (threat_lookup ''NotAThreat'') = ''Unknown'' \<and>
   desc (threat_lookup ''NotAThreat'') = ''No additional information available.''"
proof -
  have a: "\<forall>(k, v) \<in> set THREAT_INFO. threat_lookup k = v"
    using threat_lookup_member by auto
  have b: "name \<notin> set (map fst THREAT_INFO) \<longrightarrow>
      threat_lookup name =
        \<lparr>risk = ''Unknown'', color = ''#94a3b8'', icon = None,
         desc = ''No additional information available.''\<rparr>"
    using threat_lookup_absent[of name] by (simp add: unknown_info_def)
  have c: "risk (threat_lookup ''Explosive'') = ''Critical''"
    by (simp add: threat_lookup_def dict_get_def THREAT_INFO_def)
  have d: "risk (threat_lookup ''Lighter'') = ''Low''"
    by (simp add: threat_lookup_def dict_get_def THREAT_INFO_def)
  have e: "threat_lookup ''NotAThreat'' = unknown_info"
    by (rule threat_lookup_absent) (simp add: threat_keys)
  show ?thesis using a b c d e threat_keys by (simp add: unknown_info_def)
qed

theorem threat_lookup_total_witness:
  "''Gun'' \<notin> set (map fst THREAT_INFO) \<and>
   threat_lookup ''Gun'' =
     \<lparr>risk = ''Unknown'', color = ''#94a3b8'', icon = None,
      desc = ''No additional information available.''\<rparr> \<and>
   risk (threat_lookup ''Explosive'') = ''Critical''"
proof -
  have h: "''Gun'' \<notin> set (map fst THREAT_INFO)" by (simp add: threat_keys)
  show ?thesis using h threat_lookup_total[of "''Gun''"] by blast
qed

subsection \<open>Result card and background\<close>

lemma float_0_30: "fl (3 / 10) = 5404319552844595 / 18014398509481984"
  by code_simp

lemma float_0_29: "fl (29 / 100) = 5224175567749775 / 18014398509481984"
  by code_simp

text \<open>
  Claim C2. When the class names load, \<open>render_results\<close> shows one card. Below the float
  \<open>0.30\<close> the card reads Not Known, Unknown in the low-risk style, and the closest-guess
  sentence with the predicted label; from \<open>0.30\<close> on it shows the label and the risk and
  description of its catalog entry (or of the default record). The predicted label and the
  confidence kept with the card are the ones passed in.
\<close>

theorem low_confidence_override:
  assumes "load_class_names d = Inr class_names"
  shows "\<exists>card. fst (render_results d p c probs) = [card] \<and>
           predicted_class card = p \<and> confidence card = c \<and>
           (c < fl (3 / 10) \<longrightarrow>
              display_name card = ''Not Known'' \<and> display_risk card = ''Unknown'' \<and>
              risk_class card = ''risk-low'' \<and>
              display_desc card =
                ''The model is not confident enough. Closest guess: '' @ p @ ''.'') \<and>
           (fl (3 / 10) \<le> c \<longrightarrow>
              display_name card = p \<and> display_risk card = risk (threat_lookup p) \<and>
              risk_class card = ''risk-'' @ str_lower (risk (threat_lookup p)) \<and>
              display_desc card = desc (threat_lookup p))"
  using assms by (simp add: render_results_def top_result_card_def Let_def)

theorem low_confidence_override_witness:
  "(\<exists>card. fst (render_results \<lparr>MODEL_PATH = Some (), CLASS_NAMES_PATH = Some [''Class 1_Knife''],
                 BG_IMAGE_PATH = None\<rparr> ''Knife'' (fl (29 / 100)) [fl (29 / 100)]) = [card] \<and>
      display_name card = ''Not Known'' \<and> display_risk card = ''Unknown'' \<and>
      risk_class card = ''risk-low'' \<and>
      display_desc card = ''The model is not confident enough. Closest guess: Knife.'' \<and>
      predicted_class card = ''Knife'' \<and> confidence card = fl (29 / 100)) \<and>
   (\<exists>card. fst (render_results \<lparr>MODEL_PATH = Some (), CLASS_NAMES_PATH = Some [''Class 1_Knife''],
                 BG_IMAGE_PATH = None\<rparr> ''Knife'' (fl (3 / 10)) [fl (3 / 10)]) = [card] \<and>
      display_name card = ''Knife'' \<and> display_risk card = ''High'' \<and>
      risk_class card = ''risk-high'' \<and>
      display_desc card = ''Knives of any length are prohibited in carry-on.'')"
proof -
  have h: "load_class_names \<lparr>MODEL_PATH = Some (), CLASS_NAMES_PATH = Some [''Class 1_Knife''],
             BG_IMAGE_PATH = None\<rparr> = Inr [''Knife'']"
    by (simp add: load_class_names_def clean_class_name_def)
  have lt: "fl (29 / 100) < fl (3 / 10)" by (simp add: float_0_30 float_0_29)
  have k: "threat_lookup ''Knife'' =
     \<lparr>risk = ''High'', color = ''#d9534f'',
      icon = Some ''https://cdn-icons-png.flaticon.com/512/3460/3460996.png'',
      desc = ''Knives of any length are prohibited in carry-on.''\<rparr>"
    by (simp add: threat_lookup_def dict_get_def THREAT_INFO_def)
  have lo: "str_lower ''High'' = ''high''" by code_simp
  from low_confidence_override[OF h, of "''Knife''" "fl (29 / 100)" "[fl (29 / 100)]"] lt
  have a: "\<exists>card. fst (render_results \<lparr>MODEL_PATH = Some (), CLASS_NAMES_PATH = Some [''Class 1_Knife''],
                 BG_IMAGE_PATH = None\<rparr> ''Knife'' (fl (29 / 100)) [fl (29 / 100)]) = [card] \<and>
      display_name card = ''Not Known'' \<and> display_risk card = ''Unknown'' \<and>
      risk_class card = ''risk-low'' \<and>
      display_desc card = ''The model is not confident enough. Closest guess: Knife.'' \<and>
      predicted_class card = ''Knife'' \<and> confidence card = fl (29 / 100)"
    by auto
  from low_confidence_override[OF h, of "''Knife''" "fl (3 / 10)" "[fl (3 / 10)]"]
  have b: "\<exists>card. fst (render_results \<lparr>MODEL_PATH = Some (), CLASS_NAMES_PATH = Some [''Class 1_Knife''],
                 BG_IMAGE_PATH = None\<rparr> ''Knife'' (fl (3 / 10)) [fl (3 / 10)]) = [card] \<and>
      display_name card = ''Knife'' \<and> display_risk card = ''High'' \<and>
      risk_class card = ''risk-high'' \<and>
      display_desc card = ''Knives of any length are prohibited in carry-on.''"
    by (auto simp: k lo)
  show ?thesis using a b by blast
qed

text \<open>
  Claim C10. Without the background image file \<open>get_bg_css\<close> returns the empty string, and
  \<open>main\<close> then shows the same cards and ends in the same way as with the file present: with
  no upload it raises nothing. A missing model file or class-names file ends a scan with an
  exception.
\<close>

theorem missing_background_not_fatal:
  assumes "BG_IMAGE_PATH d = None"
  shows "get_bg_css b64encode css_head css_tail d = [] \<and>
         bg_css (main b64encode css_head css_tail forward d uploaded_file) = [] \<and>
         raised (main b64encode css_head css_tail forward d uploaded_file) =
           raised (main b64encode css_head css_tail forward (d\<lparr>BG_IMAGE_PATH := Some bytes\<rparr>)
                     uploaded_file) \<and>
         cards (main b64encode css_head css_tail forward d uploaded_file) =
           cards (main b64encode css_head css_tail forward (d\<lparr>BG_IMAGE_PATH := Some bytes\<rparr>)
                    uploaded_file) \<and>
         raised (main b64encode css_head css_tail forward d None) = None \<and>
         (MODEL_PATH d = None \<longrightarrow>
            raised (main b64encode css_head css_tail forward d (Some img)) = Some ValueError) \<and>
         (MODEL_PATH d \<noteq> None \<and> CLASS_NAMES_PATH d = None \<longrightarrow>
            raised (main b64encode css_head css_tail forward d (Some img)) =
              Some FileNotFoundError)"
  using assms
  by (auto simp: main_def get_bg_css_def load_model_def predict_def load_class_names_def
      render_results_def Let_def split: option.splits sum.splits prod.splits)

theorem missing_background_not_fatal_witness:
  "BG_IMAGE_PATH \<lparr>MODEL_PATH = (None :: unit option),
      CLASS_NAMES_PATH = Some [''Class 1_Knife''], BG_IMAGE_PATH = None\<rparr> = None \<and>
   get_bg_css (\<lambda>bs. ''QUJD'') ''<style>'' ''</style>''
     \<lparr>MODEL_PATH = (None :: unit option), CLASS_NAMES_PATH = Some [''Class 1_Knife''],
      BG_IMAGE_PATH = None\<rparr> = [] \<and>
   raised (main (\<lambda>bs. ''QUJD'') ''<style>'' ''</style>'' (\<lambda>m i. [1 :: rat])
     \<lparr>MODEL_PATH = (None :: unit option), CLASS_NAMES_PATH = Some [''Class 1_Knife''],
      BG_IMAGE_PATH = None\<rparr> (None :: unit option)) = None \<and>
   raised (main (\<lambda>bs. ''QUJD'') ''<style>'' ''</style>'' (\<lambda>m i. [1 :: rat])
     \<lparr>MODEL_PATH = (None :: unit option), CLASS_NAMES_PATH = Some [''Class 1_Knife''],
      BG_IMAGE_PATH = None\<rparr> (Some ())) = Some ValueError"
proof -
  have h: "BG_IMAGE_PATH \<lparr>MODEL_PATH = (None :: unit option),
      CLASS_NAMES_PATH = Some [''Class 1_Knife''], BG_IMAGE_PATH = None\<rparr> = None"
    by simp
  have m: "MODEL_PATH \<lparr>MODEL_PATH = (None :: unit option),
      CLASS_NAMES_PATH = Some [''Class 1_Knife''], BG_IMAGE_PATH = None\<rparr> = None"
    by simp
  note t = missing_background_not_fatal[OF h, of "\<lambda>bs. ''QUJD''" "''<style>''" "''</style>''"
        "\<lambda>m i. [1 :: rat]" "None :: unit option" "[]" "()"]
  from t have a: "get_bg_css (\<lambda>bs. ''QUJD'') ''<style>'' ''</style>''
     \<lparr>MODEL_PATH = (None :: unit option), CLASS_NAMES_PATH = Some [''Class 1_Knife''],
      BG_IMAGE_PATH = None\<rparr> = []"
    by blast
  from t have b: "raised (main (\<lambda>bs. ''QUJD'') ''<style>'' ''</style>'' (\<lambda>m i. [1 :: rat])
     \<lparr>MODEL_PATH = (None :: unit option), CLASS_NAMES_PATH = Some [''Class 1_Knife''],
      BG_IMAGE_PATH = None\<rparr> (None :: unit option)) = None"
    by blast
  from t m have c: "raised (main (\<lambda>bs. ''QUJD'') ''<style>'' ''</style>'' (\<lambda>m i. [1 :: rat])
     \<lparr>MODEL_PATH = (None :: unit option), CLASS_NAMES_PATH = Some [''Class 1_Knife''],
      BG_IMAGE_PATH = None\<rparr> (Some ())) = Some ValueError"
    by blast
  show ?thesis using h a b c by blast
qed

subsection \<open>The working image of the converter\<close>

lemma band_count_RGBA: "band_count ''RGBA'' = 4"
  by (simp add: band_count_def)

lemma alpha_step_RGBA:
  assumes "target_format \<in> set [''JPEG'', ''BMP'', ''ICO'']" and "im_mode im = ''RGBA''"
  shows "alpha_step target_format im =
           Inr \<lparr>im_mode = ''RGB'', im_size = im_size im,
                im_data = Pasted (Solid (255, 255, 255)) (im_data im) (Band (im_data im) 3)\<rparr>"
proof -
  have "[0..<4] = [0, 1, 2, 3]" by (simp add: upt_rec)
  then have "list_item (pil_split im) 3 =
      Inr \<lparr>im_mode = ''L'', im_size = im_size im, im_data = Band (im_data im) 3\<rparr>"
    using assms(2) by (simp add: list_item_def pil_split_def band_count_RGBA)
  then show ?thesis
    using assms by (simp add: alpha_step_def pil_paste_def pil_new_def)
qed

lemma alpha_step_size:
  "\<exists>out. alpha_step target_format im = Inr out \<and> im_size out = im_size im"
proof (cases "target_format \<in> set [''JPEG'', ''BMP'', ''ICO''] \<and> im_mode im = ''RGBA''")
  case True
  then show ?thesis using alpha_step_RGBA[of target_format im] by simp
next
  case False
  then show ?thesis by (auto simp: alpha_step_def pil_convert_def)
qed

text \<open>
  Claim C5 at a grey image with an alpha band (Pillow mode LA) of 100 x 80 pixels. The
  guard of the alpha step asks for mode RGBA, so this image is not composited: for a BMP
  target it goes on to the save as it is, still in mode LA, and for a JPEG target it is
  converted to RGB directly, with no white background. An RGBA image of the same size is
  composited onto white for the BMP target.
\<close>

theorem alpha_step_la_not_flattened:
  "alpha_step ''BMP'' \<lparr>im_mode = ''LA'', im_size = (100, 80), im_data = Uploaded ()\<rparr> =
     Inr \<lparr>im_mode = ''LA'', im_size = (100, 80), im_data = Uploaded ()\<rparr> \<and>
   working_image ''BMP'' False 100 80
     \<lparr>im_mode = ''LA'', im_size = (100, 80), im_data = Uploaded ()\<rparr> =
     Inr \<lparr>im_mode = ''LA'', im_size = (100, 80), im_data = Uploaded ()\<rparr> \<and>
   alpha_step ''JPEG'' \<lparr>im_mode = ''LA'', im_size = (100, 80), im_data = Uploaded ()\<rparr> =
     Inr \<lparr>im_mode = ''RGB'', im_size = (100, 80), im_data = Converted (Uploaded ()) ''RGB''\<rparr> \<and>
   alpha_step ''BMP'' \<lparr>im_mode = ''RGBA'', im_size = (100, 80), im_data = Uploaded ()\<rparr> =
     Inr \<lparr>im_mode = ''RGB'', im_size = (100, 80),
          im_data = Pasted (Solid (255, 255, 255)) (Uploaded ()) (Band (Uploaded ()) 3)\<rparr>"
proof -
  have "alpha_step ''BMP'' \<lparr>im_mode = ''RGBA'', im_size = (100, 80), im_data = Uploaded ()\<rparr> =
     Inr \<lparr>im_mode = ''RGB'', im_size = (100, 80),
          im_data = Pasted (Solid (255, 255, 255)) (Uploaded ()) (Band (Uploaded ()) 3)\<rparr>"
    using alpha_step_RGBA[of "''BMP''"
        "\<lparr>im_mode = ''RGBA'', im_size = (100, 80), im_data = Uploaded ()\<rparr>"]
    by simp
  then show ?thesis
    by (simp add: alpha_step_def pil_convert_def working_image_def resize_step_def ico_step_def)
qed

text \<open>
  Claim C9. Without a resize request and for a target other than ICO the working image is
  produced without an exception and has the size of the uploaded image.
\<close>

theorem working_image_keeps_size:
  assumes "\<not> resize" and "target_format \<noteq> ''ICO''"
  shows "\<exists>out. working_image target_format resize new_w new_h conv_image = Inr out \<and>
               im_size out = im_size conv_image"
proof -
  obtain flat where f: "alpha_step target_format conv_image = Inr flat"
      "im_size flat = im_size conv_image"
    using alpha_step_size by blast
  show ?thesis
    using assms f by (simp add: working_image_def resize_step_def ico_step_def)
qed

theorem working_image_keeps_size_witness:
  "\<exists>out. working_image ''JPEG'' False 1 1
            \<lparr>im_mode = ''RGBA'', im_size = (100, 80), im_data = Uploaded ()\<rparr> = Inr out \<and>
         im_size out = (100, 80)"
  using working_image_keeps_size[of False "''JPEG''" 1 1
      "\<lparr>im_mode = ''RGBA'', im_size = (100, 80), im_data = Uploaded ()\<rparr>"]
  by simp

lemma scale_322: "py_int (fl (fl 322 * fl (256 / fl 322))) = 255"
  by code_simp

lemma scale_322_100: "py_int (fl (fl 100 * fl (256 / fl 322))) = 79"
  by code_simp

lemma scale_512: "py_int (fl (fl 512 * fl (256 / fl 512))) = 256"
  by code_simp

lemma scale_512_256: "py_int (fl (fl 256 * fl (256 / fl 512))) = 128"
  by code_simp

text \<open>
  Claim C6 at a 322 x 100 upload. The ratio \<open>256.0 / 322\<close> is rounded to a float, the
  product \<open>322 * ratio\<close> is the float just below 256, and \<open>int\<close> truncates it: the longer
  side of the icon is 255. The 512 x 256 upload of the claim does give 256 x 128.
\<close>

theorem ico_longer_side_255:
  "working_image ''ICO'' False 322 100
     \<lparr>im_mode = ''RGB'', im_size = (322, 100), im_data = Uploaded ()\<rparr> =
     Inr \<lparr>im_mode = ''RGB'', im_size = (255, 79),
          im_data = Resized (Uploaded ()) (255, 79)\<rparr> \<and>
   working_image ''ICO'' False 512 256
     \<lparr>im_mode = ''RGB'', im_size = (512, 256), im_data = Uploaded ()\<rparr> =
     Inr \<lparr>im_mode = ''RGB'', im_size = (256, 128),
          im_data = Resized (Uploaded ()) (256, 128)\<rparr>"
  by (simp add: working_image_def resize_step_def alpha_step_def ico_step_def pil_resize_def
      scale_322 scale_322_100 scale_512 scale_512_256)

subsection \<open>Download name\<close>

lemma split_all_no_sep: "sep \<notin> set s \<Longrightarrow> split_all sep s = [s]"
  by (induction s) auto

lemma path_name_plain:
  assumes "CHR ''/'' \<notin> set s" and "s \<noteq> ''.''"
  shows "path_name s = s"
  using assms by (cases "s = []") (simp_all add: path_name_def split_all_no_sep)

lemma str_rfind_none: "c \<notin> set s \<Longrightarrow> str_rfind c s = - 1"
proof -
  assume "c \<notin> set s"
  then have "filter (\<lambda>i. s ! i = c) [0..<length s] = []"
    by (auto simp: filter_empty_conv)
  then show ?thesis by (simp add: str_rfind_def)
qed

lemma filter_tail_empty:
  assumes "c \<notin> set b"
  shows "filter (\<lambda>i. (a @ c # b) ! i = c) [Suc (length a)..<length a + Suc (length b)] = []"
proof -
  have ne: "(a @ c # b) ! i \<noteq> c" if "Suc (length a) \<le> i" "i < length a + Suc (length b)" for i
  proof -
    have "(a @ c # b) ! i = b ! (i - Suc (length a))"
      using that by (simp add: nth_append nth_Cons')
    moreover have "i - Suc (length a) < length b" using that by arith
    ultimately show ?thesis using assms by (metis nth_mem)
  qed
  have "\<forall>i\<in>set [Suc (length a)..<length a + Suc (length b)]. (a @ c # b) ! i \<noteq> c"
  proof
    fix i
    assume "i \<in> set [Suc (length a)..<length a + Suc (length b)]"
    then have "i \<in> {Suc (length a)..<length a + Suc (length b)}" unfolding set_upt .
    then have "Suc (length a) \<le> i" "i < length a + Suc (length b)"
      unfolding atLeastLessThan_iff by blast+
    then show "(a @ c # b) ! i \<noteq> c" by (rule ne)
  qed
  then show ?thesis unfolding filter_empty_conv by blast
qed

lemma str_rfind_last:
  assumes "c \<notin> set b"
  shows "str_rfind c (a @ c # b) = int (length a)"
proof -
  have u1: "[0..<length a + Suc (length b)] = [0..<length a] @ [length a..<length a + Suc (length b)]"
    by (rule upt_add_eq_append) simp
  have u2: "[length a..<length a + Suc (length b)] =
      length a # [Suc (length a)..<length a + Suc (length b)]"
    by (rule upt_conv_Cons) simp
  have len: "length (a @ c # b) = length a + Suc (length b)" by simp
  have "filter (\<lambda>i. (a @ c # b) ! i = c) [0..<length (a @ c # b)] =
          filter (\<lambda>i. (a @ c # b) ! i = c) [0..<length a] @ [length a]"
    unfolding len u1 u2 filter_append filter.simps filter_tail_empty[OF assms]
    by simp
  then show ?thesis unfolding str_rfind_def Let_def by simp
qed

lemma path_stem_last_dot:
  assumes "CHR ''/'' \<notin> set stem" "CHR ''/'' \<notin> set suffix" "CHR ''.'' \<notin> set suffix"
    "stem \<noteq> []" "suffix \<noteq> []"
  shows "path_stem (stem @ CHR ''.'' # suffix) = stem"
proof -
  have "stem @ CHR ''.'' # suffix \<noteq> ''.''"
    using assms(4) by (cases stem) auto
  moreover have "CHR ''/'' \<notin> set (stem @ CHR ''.'' # suffix)"
    using assms(1,2) by simp
  ultimately have n: "path_name (stem @ CHR ''.'' # suffix) = stem @ CHR ''.'' # suffix"
    by (intro path_name_plain)
  have r: "str_rfind (CHR ''.'') (stem @ CHR ''.'' # suffix) = int (length stem)"
    using assms(3) by (rule str_rfind_last)
  have "0 < int (length stem)" using assms(4) by simp
  moreover have "int (length stem) < int (length (stem @ CHR ''.'' # suffix)) - 1"
    using assms(5) by (cases suffix) simp_all
  ultimately show ?thesis
    unfolding path_stem_def n Let_def r by simp
qed

lemma path_stem_no_dot:
  assumes "CHR ''/'' \<notin> set s" "CHR ''.'' \<notin> set s"
  shows "path_stem s = s"
proof -
  have "s \<noteq> ''.''" using assms(2) by auto
  then have n: "path_name s = s" using assms(1) by (intro path_name_plain)
  show ?thesis unfolding path_stem_def n Let_def str_rfind_none[OF assms(2)] by simp
qed

lemma format_ext:
  assumes "dict_item FORMAT_OPTIONS target_format = Inr fmt_info"
  shows "(target_format, ext fmt_info) \<in> set
           [(''PNG'', ''png''), (''JPEG'', ''jpg''), (''BMP'', ''bmp''), (''GIF'', ''gif''),
            (''TIFF'', ''tiff''), (''WEBP'', ''webp''), (''ICO'', ''ico'')]"
proof -
  from assms have "map_of FORMAT_OPTIONS target_format = Some fmt_info"
    by (simp add: dict_item_def split: option.splits)
  then have "(target_format, fmt_info) \<in> set FORMAT_OPTIONS" by (rule map_of_SomeD)
  then have "(target_format, ext fmt_info) \<in> set (map (\<lambda>(k, v). (k, ext v)) FORMAT_OPTIONS)"
    by force
  moreover have "map (\<lambda>(k, v). (k, ext v)) FORMAT_OPTIONS =
           [(''PNG'', ''png''), (''JPEG'', ''jpg''), (''BMP'', ''bmp''), (''GIF'', ''gif''),
            (''TIFF'', ''tiff''), (''WEBP'', ''webp''), (''ICO'', ''ico'')]"
    by (simp add: FORMAT_OPTIONS_def)
  ultimately show ?thesis by simp
qed

lemma converter_file_name:
  assumes "render_image_converter save conv_file_name conv_image target_format quality
             resize new_w new_h = Inr conv"
  shows "\<exists>fmt_info. dict_item FORMAT_OPTIONS target_format = Inr fmt_info \<and>
           file_name conv = path_stem conv_file_name @ ''_converted.'' @ ext fmt_info"
proof (cases "dict_item FORMAT_OPTIONS target_format")
  case (Inl e)
  then show ?thesis using assms by (simp add: render_image_converter_def)
next
  case (Inr fmt_info)
  then have "file_name conv = out_name conv_file_name fmt_info"
    using assms by (auto simp: render_image_converter_def split: sum.splits)
  then show ?thesis using Inr by (simp add: out_name_def)
qed

lemma split_all_ne: "split_all sep s \<noteq> []"
  by (induction s) (auto split: list.splits)

lemma split_all_sep_free: "seg \<in> set (split_all sep s) \<Longrightarrow> sep \<notin> set seg"
  by (induction s arbitrary: seg) (auto split: list.splits if_splits)

lemma join_path_Cons_char: "join_path ((c # p) # ps) = c # join_path (p # ps)"
  by (cases ps) simp_all

lemma join_split: "join_path (split_all (CHR ''/'') s) = s"
proof (induction s)
  case Nil
  then show ?case by simp
next
  case (Cons c cs)
  obtain p ps where sp: "split_all (CHR ''/'') cs = p # ps"
    using split_all_ne[of "CHR ''/''" cs] by (cases "split_all (CHR ''/'') cs") auto
  show ?case
  proof (cases "c = CHR ''/''")
    case True
    then show ?thesis using Cons.IH sp by simp
  next
    case False
    then show ?thesis using Cons.IH sp by (simp add: join_path_Cons_char)
  qed
qed

lemma split_all_append:
  "split_all sep (a @ sep # b) = split_all sep a @ split_all sep b"
proof (induction a)
  case Nil
  then show ?case by simp
next
  case (Cons c a)
  obtain p ps where sp: "split_all sep a = p # ps"
    using split_all_ne[of sep a] by (cases "split_all sep a") auto
  show ?case using Cons.IH sp by simp
qed

lemma split_join:
  assumes "segs \<noteq> []" and "\<forall>seg\<in>set segs. CHR ''/'' \<notin> set seg"
  shows "split_all (CHR ''/'') (join_path segs) = segs"
  using assms
proof (induction segs rule: join_path.induct)
  case 1
  then show ?case by simp
next
  case (2 x)
  then show ?case by (simp add: split_all_no_sep)
next
  case (3 x y ys)
  then have "split_all (CHR ''/'') (join_path (y # ys)) = y # ys" by simp
  moreover have "split_all (CHR ''/'') x = [x]" using 3 by (simp add: split_all_no_sep)
  ultimately show ?case by (simp add: split_all_append)
qed

lemma path_name_final: "path_name s = final_name (split_all (CHR ''/'') s)"
  by (simp add: path_name_def final_name_def)

lemma path_stem_dot:
  assumes "path_name s = stem @ CHR ''.'' # suffix" "stem \<noteq> []" "suffix \<noteq> []"
    "CHR ''.'' \<notin> set suffix"
  shows "path_stem s = stem"
proof -
  have r: "str_rfind (CHR ''.'') (stem @ CHR ''.'' # suffix) = int (length stem)"
    using assms(4) by (rule str_rfind_last)
  have "0 < int (length stem)" using assms(2) by simp
  moreover have "int (length stem) < int (length (stem @ CHR ''.'' # suffix)) - 1"
    using assms(3) by (cases suffix) simp_all
  ultimately show ?thesis
    unfolding path_stem_def assms(1) Let_def r by simp
qed

lemma path_stem_other:
  assumes "\<nexists>stem suffix. path_name s = stem @ CHR ''.'' # suffix \<and> stem \<noteq> [] \<and>
             suffix \<noteq> [] \<and> CHR ''.'' \<notin> set suffix"
  shows "path_stem s = path_name s"
proof (cases "CHR ''.'' \<in> set (path_name s)")
  case False
  then show ?thesis unfolding path_stem_def Let_def by (simp add: str_rfind_none)
next
  case True
  then obtain a b where ab: "path_name s = a @ CHR ''.'' # b" "CHR ''.'' \<notin> set b"
    using split_list_last[of "CHR ''.''" "path_name s"] by blast
  have r: "str_rfind (CHR ''.'') (a @ CHR ''.'' # b) = int (length a)"
    using ab(2) by (rule str_rfind_last)
  have "a = [] \<or> b = []" using assms ab by blast
  then show ?thesis
  proof
    assume "a = []"
    then show ?thesis unfolding path_stem_def ab(1) Let_def r by simp
  next
    assume "b = []"
    then show ?thesis unfolding path_stem_def ab(1) Let_def r by simp
  qed
qed

text \<open>
  Claim C7, as amended. The download name is the stem of the uploaded file's name, then
  \<open>_converted.\<close>, then the extension that the format table gives for the target format. The
  stem is taken from the final component of the name, which is the name itself when it
  holds no \<open>/\<close> (empty components and \<open>.\<close> are skipped). It is the component up to its
  last dot when that dot is neither its first nor its last character, and the whole
  component otherwise.
\<close>

theorem download_name_last_dot:
  assumes conv: "render_image_converter save conv_file_name conv_image target_format quality
                   resize new_w new_h = Inr conv"
  shows "\<exists>e segs. (target_format, e) \<in> set
              [(''PNG'', ''png''), (''JPEG'', ''jpg''), (''BMP'', ''bmp''), (''GIF'', ''gif''),
               (''TIFF'', ''tiff''), (''WEBP'', ''webp''), (''ICO'', ''ico'')] \<and>
            segs \<noteq> [] \<and> (\<forall>seg\<in>set segs. CHR ''/'' \<notin> set seg) \<and>
            conv_file_name = join_path segs \<and>
            (\<forall>stem suffix. final_name segs = stem @ ''.'' @ suffix \<and> stem \<noteq> [] \<and>
                 suffix \<noteq> [] \<and> CHR ''.'' \<notin> set suffix \<longrightarrow>
                 file_name conv = stem @ ''_converted.'' @ e) \<and>
            ((\<nexists>stem suffix. final_name segs = stem @ ''.'' @ suffix \<and> stem \<noteq> [] \<and>
                 suffix \<noteq> [] \<and> CHR ''.'' \<notin> set suffix) \<longrightarrow>
                 file_name conv = final_name segs @ ''_converted.'' @ e)"
proof -
  from converter_file_name[OF conv] obtain fmt_info where
    f1: "dict_item FORMAT_OPTIONS target_format = Inr fmt_info" and
    f2: "file_name conv = path_stem conv_file_name @ ''_converted.'' @ ext fmt_info"
    by blast
  define segs where "segs = split_all (CHR ''/'') conv_file_name"
  have n: "path_name conv_file_name = final_name segs"
    unfolding segs_def by (rule path_name_final)
  have s1: "segs \<noteq> []" unfolding segs_def by (rule split_all_ne)
  have s2: "\<forall>seg\<in>set segs. CHR ''/'' \<notin> set seg"
    unfolding segs_def using split_all_sep_free by blast
  have s3: "conv_file_name = join_path segs" unfolding segs_def by (simp add: join_split)
  have a: "\<forall>stem suffix. final_name segs = stem @ ''.'' @ suffix \<and> stem \<noteq> [] \<and>
                 suffix \<noteq> [] \<and> CHR ''.'' \<notin> set suffix \<longrightarrow>
                 file_name conv = stem @ ''_converted.'' @ ext fmt_info"
  proof (intro allI impI)
    fix stem suffix
    assume h: "final_name segs = stem @ ''.'' @ suffix \<and> stem \<noteq> [] \<and>
                 suffix \<noteq> [] \<and> CHR ''.'' \<notin> set suffix"
    then have "path_name conv_file_name = stem @ CHR ''.'' # suffix" unfolding n by simp
    then have "path_stem conv_file_name = stem" using h by (intro path_stem_dot) blast+
    then show "file_name conv = stem @ ''_converted.'' @ ext fmt_info" unfolding f2 by simp
  qed
  have b: "(\<nexists>stem suffix. final_name segs = stem @ ''.'' @ suffix \<and> stem \<noteq> [] \<and>
                 suffix \<noteq> [] \<and> CHR ''.'' \<notin> set suffix) \<longrightarrow>
                 file_name conv = final_name segs @ ''_converted.'' @ ext fmt_info"
  proof
    assume "\<nexists>stem suffix. final_name segs = stem @ ''.'' @ suffix \<and> stem \<noteq> [] \<and>
                 suffix \<noteq> [] \<and> CHR ''.'' \<notin> set suffix"
    then have "\<nexists>stem suffix. path_name conv_file_name = stem @ CHR ''.'' # suffix \<and>
                 stem \<noteq> [] \<and> suffix \<noteq> [] \<and> CHR ''.'' \<notin> set suffix"
      unfolding n by simp
    then have "path_stem conv_file_name = path_name conv_file_name" by (rule path_stem_other)
    then show "file_name conv = final_name segs @ ''_converted.'' @ ext fmt_info"
      unfolding f2 n by simp
  qed
  from format_ext[OF f1] s1 s2 s3 a b show ?thesis
    by (intro exI[of _ "ext fmt_info"] exI[of _ segs] conjI)
qed

lemma stem_scan_v2: "path_stem ''scan.v2.png'' = ''scan.v2''"
  using path_stem_last_dot[of "''scan.v2''" "''png''"] by simp

lemma webp_info:
  "dict_item FORMAT_OPTIONS ''WEBP'' = Inr \<lparr>ext = ''webp'', mime = ''image/webp'', pillow = ''WEBP''\<rparr>"
  by (simp add: dict_item_def FORMAT_OPTIONS_def)

lemma webp_working_image:
  "working_image ''WEBP'' False w h im = Inr im"
  by (simp add: working_image_def resize_step_def alpha_step_def ico_step_def)

lemma webp_render:
  "render_image_converter (\<lambda>im f q. Inr [0]) name im ''WEBP'' 95 False w h =
     Inr \<lparr>out_image = im, file_size_str = size_str (length [0::nat]),
          file_name = out_name name \<lparr>ext = ''webp'', mime = ''image/webp'', pillow = ''WEBP''\<rparr>,
          mime_type = ''image/webp'', buf = [0]\<rparr>"
  unfolding render_image_converter_def webp_info webp_working_image by simp

lemma no_stem_dot_png:
  "\<nexists>stem suffix. ''.png'' = stem @ ''.'' @ suffix \<and> stem \<noteq> [] \<and> suffix \<noteq> [] \<and>
     CHR ''.'' \<notin> set suffix"
proof
  assume "\<exists>stem suffix. ''.png'' = stem @ ''.'' @ suffix \<and> stem \<noteq> [] \<and> suffix \<noteq> [] \<and>
     CHR ''.'' \<notin> set suffix"
  then obtain stem suffix where h: "''.png'' = stem @ CHR ''.'' # suffix" "stem \<noteq> []"
    "CHR ''.'' \<notin> set suffix" by auto
  from h(2) obtain c st where st: "stem = c # st" by (cases stem) auto
  with h(1) have "''png'' = st @ CHR ''.'' # suffix" by simp
  then have "CHR ''.'' \<in> set ''png''" by (metis in_set_conv_decomp)
  then show False by simp
qed

theorem download_name_last_dot_witness:
  "map_sum id file_name
     (render_image_converter (\<lambda>im f q. Inr [0]) ''scan01.PNG''
        \<lparr>im_mode = ''RGB'', im_size = (100, 80), im_data = Uploaded ()\<rparr> ''WEBP'' 95 False 100 80)
     = Inr ''scan01_converted.webp'' \<and>
   map_sum id file_name
     (render_image_converter (\<lambda>im f q. Inr [0]) ''.png''
        \<lparr>im_mode = ''RGB'', im_size = (100, 80), im_data = Uploaded ()\<rparr> ''WEBP'' 95 False 100 80)
     = Inr ''.png_converted.webp''"
proof -
  let ?im = "\<lparr>im_mode = ''RGB'', im_size = (100, 80), im_data = Uploaded ()\<rparr>"
  let ?c = "\<lambda>name. \<lparr>out_image = ?im, file_size_str = size_str (length [0::nat]),
          file_name = out_name name \<lparr>ext = ''webp'', mime = ''image/webp'', pillow = ''WEBP''\<rparr>,
          mime_type = ''image/webp'', buf = [0]\<rparr>"
  have a: "file_name (?c ''scan01.PNG'') = ''scan01_converted.webp''"
  proof -
    from download_name_last_dot[OF webp_render[of "''scan01.PNG''" ?im 100 80]]
    obtain e segs where
      e: "(''WEBP'', e) \<in> set
              [(''PNG'', ''png''), (''JPEG'', ''jpg''), (''BMP'', ''bmp''), (''GIF'', ''gif''),
               (''TIFF'', ''tiff''), (''WEBP'', ''webp''), (''ICO'', ''ico'')]" and
      s: "segs \<noteq> []" "\<forall>seg\<in>set segs. CHR ''/'' \<notin> set seg" "''scan01.PNG'' = join_path segs" and
      d: "\<forall>stem suffix. final_name segs = stem @ ''.'' @ suffix \<and> stem \<noteq> [] \<and>
                 suffix \<noteq> [] \<and> CHR ''.'' \<notin> set suffix \<longrightarrow>
                 file_name (?c ''scan01.PNG'') = stem @ ''_converted.'' @ e"
      by blast
    have e': "e = ''webp''" using e by simp
    have "split_all (CHR ''/'') ''scan01.PNG'' = segs"
      unfolding s(3) using s(1,2) by (rule split_join)
    then have "segs = [''scan01.PNG'']" by (simp add: split_all_no_sep)
    then have fn: "final_name segs = ''scan01.PNG''" by (simp add: final_name_def)
    have "file_name (?c ''scan01.PNG'') = ''scan01'' @ ''_converted.'' @ e"
      using d[THEN spec, of "''scan01''", THEN spec, of "''PNG''"] fn by simp
    then show ?thesis unfolding e' by simp
  qed
  have b: "file_name (?c ''.png'') = ''.png_converted.webp''"
  proof -
    from download_name_last_dot[OF webp_render[of "''.png''" ?im 100 80]]
    obtain e segs where
      e: "(''WEBP'', e) \<in> set
              [(''PNG'', ''png''), (''JPEG'', ''jpg''), (''BMP'', ''bmp''), (''GIF'', ''gif''),
               (''TIFF'', ''tiff''), (''WEBP'', ''webp''), (''ICO'', ''ico'')]" and
      s: "segs \<noteq> []" "\<forall>seg\<in>set segs. CHR ''/'' \<notin> set seg" "''.png'' = join_path segs" and
      d: "(\<nexists>stem suffix. final_name segs = stem @ ''.'' @ suffix \<and> stem \<noteq> [] \<and>
                 suffix \<noteq> [] \<and> CHR ''.'' \<notin> set suffix) \<longrightarrow>
                 file_name (?c ''.png'') = final_name segs @ ''_converted.'' @ e"
      by blast
    have e': "e = ''webp''" using e by simp
    have "split_all (CHR ''/'') ''.png'' = segs"
      unfolding s(3) using s(1,2) by (rule split_join)
    then have "segs = [''.png'']" by (simp add: split_all_no_sep)
    then have fn: "final_name segs = ''.png''" by (simp add: final_name_def)
    from d no_stem_dot_png have "file_name (?c ''.png'') = ''.png'' @ ''_converted.'' @ e"
      unfolding fn by blast
    then show ?thesis unfolding e' by simp
  qed
  show ?thesis unfolding webp_render using a b by simp
qed

text \<open>
  Claim C7 as stated takes the stem before the first dot. For a name with two dots the
  download name keeps everything up to the last dot.
\<close>

theorem download_name_first_dot_counterexample:
  "map_sum id file_name
     (render_image_converter (\<lambda>im f q. Inr [0]) ''scan.v2.png''
        \<lparr>im_mode = ''RGB'', im_size = (100, 80), im_data = Uploaded ()\<rparr> ''WEBP'' 95 False 100 80)
     = Inr ''scan.v2_converted.webp'' \<and>
   takeWhile (\<lambda>c. c \<noteq> CHR ''.'') ''scan.v2.png'' = ''scan'' \<and>
   ''scan.v2_converted.webp'' \<noteq> ''scan'' @ ''_converted.'' @ ''webp''"
  unfolding render_image_converter_def webp_info webp_working_image
  by (simp add: out_name_def stem_scan_v2)

subsection \<open>File size string\<close>

lemma pow2_powi: "pow2 e = 2 powi e"
  by (simp add: pow2_def power_int_def power_divide)

lemma pow2_pos: "0 < pow2 e"
  by (simp add: pow2_powi)

lemma pow2_mono: "a \<le> b \<Longrightarrow> pow2 a \<le> pow2 b"
  unfolding pow2_powi by (rule power_int_increasing) simp_all

lemma pow2_diff: "pow2 (a - b) = pow2 a / pow2 b"
  unfolding pow2_powi by (rule power_int_diff) simp

lemma pow2_nat: "pow2 (int m) = 2 ^ m"
  by (simp add: pow2_powi)

lemma pow2_neg_nat: "pow2 (- int m) = 1 / 2 ^ m"
  by (simp add: pow2_powi power_int_minus_divide)

lemma bitlen_ge_1: "0 < x \<Longrightarrow> 1 \<le> bitlen x"
  using bitlen_nonneg[of x] bitlen_eq_zero_iff[of x] by linarith

lemma float_exponent_le:
  assumes "0 < x"
  shows "pow2 (float_exponent x) \<le> x"
proof -
  obtain p q where pq: "quotient_of x = (p, q)" by (cases "quotient_of x")
  have q: "0 < q" using pq by (rule quotient_of_denom_pos)
  have x: "x = of_int p / of_int q" using pq by (rule quotient_of_div)
  have p: "0 < p"
  proof (rule ccontr)
    assume "\<not> 0 < p"
    then have "of_int p / (of_int q :: rat) \<le> 0"
      using q by (simp add: divide_le_0_iff)
    then show False using assms x by simp
  qed
  define e where "e = bitlen p - bitlen q"
  have fe: "float_exponent x = (if pow2 e \<le> x then e else e - 1)"
    by (simp add: float_exponent_def pq e_def Let_def)
  show ?thesis
  proof (cases "pow2 e \<le> x")
    case True
    then show ?thesis by (simp add: fe)
  next
    case False
    have bp: "(2::int) ^ nat (bitlen p - 1) \<le> p" using bitlen_bounds[OF p] by blast
    have bq: "q < (2::int) ^ nat (bitlen q)" using bitlen_bounds[OF q] by blast
    have n1: "pow2 (bitlen p - 1) = of_int (2 ^ nat (bitlen p - 1))"
      using bitlen_ge_1[OF p] pow2_nat[of "nat (bitlen p - 1)"] by simp
    have n2: "pow2 (bitlen q) = of_int (2 ^ nat (bitlen q))"
      using bitlen_ge_1[OF q] pow2_nat[of "nat (bitlen q)"] by simp
    have le1: "pow2 (bitlen p - 1) \<le> of_int p"
      unfolding n1 using bp by (simp only: of_int_le_iff)
    have "q \<le> 2 ^ nat (bitlen q)" using bq by simp
    then have le2: "(of_int q :: rat) \<le> pow2 (bitlen q)"
      unfolding n2 by (simp only: of_int_le_iff)
    have "pow2 (e - 1) = pow2 (bitlen p - 1) / pow2 (bitlen q)"
      using pow2_diff[of "bitlen p - 1" "bitlen q"] by (simp add: e_def algebra_simps)
    also have "\<dots> \<le> of_int p / of_int q"
      using le1 le2 q pow2_pos[of "bitlen p - 1"] by (intro frac_le) simp_all
    finally have "pow2 (e - 1) \<le> x" unfolding x .
    then show ?thesis unfolding fe using False by simp
  qed
qed

lemma round_half_even_of_int: "round_half_even (of_int z) = z"
  by (simp add: round_half_even_def)

lemma round_half_even_near: "\<bar>of_int (round_half_even x) - x\<bar> \<le> 1 / 2"
proof -
  have "of_int \<lfloor>x\<rfloor> \<le> x" "x < of_int \<lfloor>x\<rfloor> + 1" by linarith+
  then show ?thesis by (auto simp: round_half_even_def Let_def abs_le_iff)
qed

lemma round_half_even_nonneg: "0 \<le> x \<Longrightarrow> 0 \<le> round_half_even x"
proof -
  assume "0 \<le> x"
  then have "0 \<le> \<lfloor>x\<rfloor>" by simp
  then show ?thesis by (auto simp: round_half_even_def Let_def)
qed

lemma fl_dyadic:
  assumes "0 < n" "n < 2 ^ 53" "k \<le> 1074"
  shows "fl (of_int n / 2 ^ k) = of_int n / 2 ^ k"
proof -
  define x :: rat where "x = of_int n / 2 ^ k"
  have xpos: "0 < x" using assms(1) by (simp add: x_def)
  define E where "E = max (float_exponent x) (- 1022)"
  have "(of_int n :: rat) < of_int (2 ^ 53)" using assms(2) by (simp only: of_int_less_iff)
  then have "x < 2 ^ 53 / 2 ^ k" by (simp add: x_def divide_strict_right_mono)
  also have "\<dots> = pow2 (53 - int k)"
    using pow2_diff[of 53 "int k"] pow2_nat[of 53] pow2_nat[of k] by simp
  finally have lt: "x < pow2 (53 - int k)" .
  have "float_exponent x \<le> 52 - int k"
  proof (rule ccontr)
    assume "\<not> float_exponent x \<le> 52 - int k"
    then have "53 - int k \<le> float_exponent x" by simp
    then have "pow2 (53 - int k) \<le> pow2 (float_exponent x)" by (rule pow2_mono)
    also have "\<dots> \<le> x" using xpos by (rule float_exponent_le)
    finally show False using lt by simp
  qed
  then have E_le: "E \<le> 52 - int k" using assms(3) by (simp add: E_def)
  define j where "j = nat (52 - int k - E)"
  have "E - 52 = - int (k + j)" using E_le by (simp add: j_def)
  then have u: "pow2 (E - 52) = 1 / (2 ^ k * 2 ^ j)"
    using pow2_neg_nat[of "k + j"] by (simp add: power_add)
  have ax: "\<bar>x\<bar> = x" using xpos by simp
  have quot: "\<bar>x\<bar> / pow2 (E - 52) = of_int (n * 2 ^ j)"
    unfolding ax u by (simp add: x_def)
  have "fl x = sgn x * of_int (round_half_even (\<bar>x\<bar> / pow2 (E - 52))) * pow2 (E - 52)"
    using xpos by (simp add: fl_def Let_def E_def)
  also have "\<dots> = of_int (n * 2 ^ j) * pow2 (E - 52)"
    unfolding quot round_half_even_of_int using xpos by simp
  also have "\<dots> = x" unfolding u by (simp add: x_def)
  finally show ?thesis unfolding x_def .
qed

lemma true_div_pow2:
  assumes "n < 2 ^ 53" "k \<le> 1074"
  shows "true_div (int n) (2 ^ k) = of_nat n / 2 ^ k"
proof (cases "n = 0")
  case True
  then show ?thesis by (simp add: true_div_def fl_def)
next
  case False
  have "int n < 2 ^ 53" using assms(1) by (metis of_nat_less_iff of_nat_numeral of_nat_power)
  then have "fl (of_int (int n) / 2 ^ k) = of_int (int n) / 2 ^ k"
    using False assms(2) by (intro fl_dyadic) simp_all
  then show ?thesis by (simp add: true_div_def)
qed

lemma str_int_500: "str_int 500 = ''500''"
  by code_simp

lemma true_div_2048: "true_div 2048 1024 = 2"
  by code_simp

lemma true_div_3145728: "true_div 3145728 1048576 = 3"
  by code_simp

lemma str_round_2: "str_round 2 1 = ''2.0''"
  by code_simp

lemma str_round_3: "str_round 3 2 = ''3.0''"
  by code_simp

lemma size_str_500: "size_str 500 = ''500 B''"
  by (simp add: size_str_def str_int_500)

lemma size_str_2048: "size_str 2048 = ''2.0 KB''"
  by (simp add: size_str_def true_div_2048 str_round_2[unfolded One_nat_def])

lemma size_str_3145728: "size_str 3145728 = ''3.0 MB''"
  by (simp add: size_str_def true_div_3145728 str_round_3)

lemma map_upt_eqD:
  assumes "map f [0..<n] = map g [0..<n]" and "i < n"
  shows "f i = g i"
  using assms by (simp add: map_eq_conv)

lemma digit_chars:
  "map digit_char [0..<10] = map (\<lambda>d. ''0123456789'' ! d) [0..<10]"
  by code_simp

lemma digit_char_nth: "d < 10 \<Longrightarrow> digit_char d = ''0123456789'' ! d"
  using digit_chars by (rule map_upt_eqD)

lemma digit_char_in: "d < 10 \<Longrightarrow> digit_char d \<in> set ''0123456789''"
  unfolding digit_char_nth by (rule nth_mem) simp

lemma digit_char_value: "d < 10 \<Longrightarrow> of_char (digit_char d) - 48 = d"
  by (simp add: digit_char_def)

lemma digit_cases:
  assumes "c \<in> set ''0123456789''"
  shows "\<exists>d<10. c = digit_char d"
proof -
  from assms obtain d where "d < length ''0123456789''" "''0123456789'' ! d = c"
    unfolding in_set_conv_nth by blast
  then have "d < 10" "c = digit_char d" by (simp_all add: digit_char_nth)
  then show ?thesis by blast
qed

lemma numeral_value_snoc:
  "numeral_value (xs @ [c]) = 10 * numeral_value xs + (of_char c - 48)"
  by (simp add: numeral_value_def)

lemma str_nat_small: "n < 10 \<Longrightarrow> str_nat n = [digit_char n]"
  by (subst str_nat.simps) simp

lemma str_nat_large:
  "\<not> n < 10 \<Longrightarrow> str_nat n = str_nat (n div 10) @ [digit_char (n mod 10)]"
  by (subst str_nat.simps) simp

lemma str_nat_numeral: "decimal_numeral (str_nat n) n"
proof (induction n rule: str_nat.induct)
  case (1 n)
  show ?case
  proof (cases "n < 10")
    case True
    then show ?thesis
      using digit_char_in[of n] digit_char_value[of n]
      by (simp add: str_nat_small decimal_numeral_def numeral_value_def)
  next
    case False
    then have ih: "decimal_numeral (str_nat (n div 10)) (n div 10)" by (rule 1)
    let ?xs = "str_nat (n div 10)"
    have ne: "?xs \<noteq> []" and dg: "set ?xs \<subseteq> set ''0123456789''"
      and z: "hd ?xs = CHR ''0'' \<longrightarrow> ?xs = ''0''" and v: "numeral_value ?xs = n div 10"
      using ih unfolding decimal_numeral_def by blast+
    have d: "n mod 10 < 10" by simp
    have "hd ?xs \<noteq> CHR ''0''"
    proof
      assume "hd ?xs = CHR ''0''"
      then have "?xs = ''0''" using z by blast
      then have "numeral_value ?xs = 0" by (simp add: numeral_value_def)
      then show False using v False by simp
    qed
    then have h: "hd (?xs @ [digit_char (n mod 10)]) \<noteq> CHR ''0''" using ne by simp
    have val: "numeral_value (?xs @ [digit_char (n mod 10)]) = n"
      unfolding numeral_value_snoc v digit_char_value[OF d] by simp
    show ?thesis
      unfolding str_nat_large[OF False] decimal_numeral_def
      using dg digit_char_in[OF d] h val by simp
  qed
qed

lemma foldl_digits_ge: "(a::nat) \<le> foldl (\<lambda>a c. 10 * a + (of_char c - 48)) a xs"
proof (induction xs arbitrary: a)
  case Nil
  then show ?case by simp
next
  case (Cons c xs)
  have "a \<le> 10 * a + (of_char c - 48)" by simp
  also have "\<dots> \<le> foldl (\<lambda>a c. 10 * a + (of_char c - 48)) (10 * a + (of_char c - 48)) xs"
    by (rule Cons.IH)
  finally show ?case by simp
qed

lemma numeral_value_zero_hd:
  assumes "xs \<noteq> []" "set xs \<subseteq> set ''0123456789''" "numeral_value xs = 0"
  shows "hd xs = CHR ''0''"
proof -
  obtain c rest where xs: "xs = c # rest" using assms(1) by (cases xs) auto
  obtain d where d: "d < 10" "c = digit_char d" using digit_cases[of c] assms(2) xs by auto
  have "of_char c - 48 \<le> numeral_value xs"
    unfolding xs numeral_value_def using foldl_digits_ge[of "of_char c - 48" rest] by simp
  then have "d = 0" using assms(3) d digit_char_value[of d] by simp
  then show ?thesis unfolding xs using d(2) digit_char_nth[of 0] by simp
qed

lemma decimal_numeral_unique: "decimal_numeral ds k \<Longrightarrow> ds = str_nat k"
proof (induction k arbitrary: ds rule: str_nat.induct)
  case (1 k)
  have ne: "ds \<noteq> []" and dg: "set ds \<subseteq> set ''0123456789''"
    and z: "hd ds = CHR ''0'' \<longrightarrow> ds = ''0''" and v: "numeral_value ds = k"
    using 1(2) unfolding decimal_numeral_def by blast+
  obtain xs c where ds: "ds = xs @ [c]" using ne by (cases ds rule: rev_cases) auto
  obtain d where d: "d < 10" "c = digit_char d" using digit_cases[of c] dg ds by auto
  have v': "10 * numeral_value xs + d = k"
    using v unfolding ds numeral_value_snoc d(2) digit_char_value[OF d(1)] .
  have dk: "d = k mod 10" and vk: "numeral_value xs = k div 10" using v' d(1) by auto
  show ?case
  proof (cases "k < 10")
    case True
    have "xs = []"
    proof (rule ccontr)
      assume x: "xs \<noteq> []"
      have "numeral_value xs = 0" using vk True by simp
      then have "hd xs = CHR ''0''" using x dg ds by (intro numeral_value_zero_hd) auto
      then have "hd ds = CHR ''0''" using x ds by simp
      then have "ds = ''0''" using z by blast
      then show False using x ds by simp
    qed
    then show ?thesis using True dk d(2) ds by (simp add: str_nat_small)
  next
    case False
    have x: "xs \<noteq> []"
    proof
      assume "xs = []"
      then have "numeral_value xs = 0" by (simp add: numeral_value_def)
      then show False using vk False by simp
    qed
    have "hd xs \<noteq> CHR ''0''"
    proof
      assume "hd xs = CHR ''0''"
      then have "hd ds = CHR ''0''" using x ds by simp
      then have "ds = ''0''" using z by blast
      then show False using x ds by simp
    qed
    then have "decimal_numeral xs (k div 10)"
      unfolding decimal_numeral_def using x dg ds vk by simp
    then have "xs = str_nat (k div 10)" using False by (intro 1(1))
    then show ?thesis using False dk d(2) ds by (simp add: str_nat_large)
  qed
qed

lemma round_half_even_tie:
  assumes "\<bar>of_int (round_half_even x) - x\<bar> = 1 / 2"
  shows "even (round_half_even x)"
proof -
  define f where "f = \<lfloor>x\<rfloor>"
  define d where "d = x - of_int f"
  have x: "x = of_int f + d" by (simp add: d_def)
  have d01: "0 \<le> d" "d < 1" unfolding d_def f_def by linarith+
  have r: "round_half_even x =
      (if d < 1 / 2 then f else if 1 / 2 < d then f + 1 else if even f then f else f + 1)"
    by (simp add: round_half_even_def Let_def d_def f_def)
  consider "d < 1 / 2" | "1 / 2 < d" | "d = 1 / 2" by linarith
  then show ?thesis
  proof cases
    case 1
    then have "round_half_even x = f" by (simp add: r)
    then have "\<bar>of_int (round_half_even x) - x\<bar> = d" using d01 by (simp add: x)
    then show ?thesis using assms 1 by simp
  next
    case 2
    then have "round_half_even x = f + 1" by (simp add: r)
    then have "\<bar>of_int (round_half_even x) - x\<bar> = 1 - d" using d01 by (simp add: x)
    then show ?thesis using assms 2 by simp
  next
    case 3
    then show ?thesis by (simp add: r)
  qed
qed

lemma frac_digits_1_table:
  "map (frac_digits 1) [0..<10] = map (\<lambda>d. [''0123456789'' ! d]) [0..<10]"
  by code_simp

lemma frac_digits_2_table:
  "map (frac_digits 2) [0..<100] =
   map (\<lambda>f. if f mod 10 = 0 then [''0123456789'' ! (f div 10)]
             else [''0123456789'' ! (f div 10), ''0123456789'' ! (f mod 10)]) [0..<100]"
  by code_simp

lemma str_decimal_1:
  "str_decimal 1 False m = str_nat (m div 10) @ ''.'' @ [''0123456789'' ! (m mod 10)]"
proof -
  have "frac_digits 1 (m mod 10) = [''0123456789'' ! (m mod 10)]"
    using frac_digits_1_table by (rule map_upt_eqD) simp
  then show ?thesis by (simp add: str_decimal_def)
qed

lemma str_decimal_2:
  "str_decimal 2 False m = str_nat (m div 100) @ ''.'' @
     (if m mod 10 = 0 then [''0123456789'' ! (m mod 100 div 10)]
      else [''0123456789'' ! (m mod 100 div 10), ''0123456789'' ! (m mod 10)])"
proof -
  have "frac_digits 2 (m mod 100) =
     (if m mod 100 mod 10 = 0 then [''0123456789'' ! (m mod 100 div 10)]
      else [''0123456789'' ! (m mod 100 div 10), ''0123456789'' ! (m mod 100 mod 10)])"
    using frac_digits_2_table by (rule map_upt_eqD) simp
  moreover have "m mod 100 mod 10 = m mod 10" by (simp add: mod_mod_cancel)
  ultimately show ?thesis by (simp add: str_decimal_def)
qed

lemma str_round_pinned:
  assumes "0 \<le> x"
  shows "\<exists>m. str_round x nd = str_decimal nd False m \<and>
             \<bar>of_nat m / 10 ^ nd - x\<bar> \<le> 1 / (2 * 10 ^ nd) \<and>
             (\<bar>of_nat m / 10 ^ nd - x\<bar> = 1 / (2 * 10 ^ nd) \<longrightarrow> even m)"
proof -
  define r where "r = round_half_even (x * 10 ^ nd)"
  have "0 \<le> x * 10 ^ nd" using assms by simp
  then have r0: "0 \<le> r" unfolding r_def by (rule round_half_even_nonneg)
  have m: "(of_nat (nat r) :: rat) = of_int r" using r0 by simp
  have scale: "\<bar>of_int r / 10 ^ nd - x\<bar> = \<bar>of_int r - x * 10 ^ nd\<bar> / 10 ^ nd"
  proof -
    have "of_int r / 10 ^ nd - x = (of_int r - x * 10 ^ nd) / 10 ^ nd"
      by (simp add: diff_divide_distrib)
    then show ?thesis by simp
  qed
  have near: "\<bar>of_nat (nat r) / 10 ^ nd - x\<bar> \<le> 1 / (2 * 10 ^ nd)"
  proof -
    have "\<bar>of_int r - x * 10 ^ nd\<bar> \<le> 1 / 2" unfolding r_def by (rule round_half_even_near)
    then have "\<bar>of_int r - x * 10 ^ nd\<bar> / 10 ^ nd \<le> (1 / 2) / 10 ^ nd"
      by (intro divide_right_mono) simp_all
    then show ?thesis unfolding m scale by simp
  qed
  have tie: "\<bar>of_nat (nat r) / 10 ^ nd - x\<bar> = 1 / (2 * 10 ^ nd) \<longrightarrow> even (nat r)"
  proof
    assume "\<bar>of_nat (nat r) / 10 ^ nd - x\<bar> = 1 / (2 * 10 ^ nd)"
    then have "\<bar>of_int r - x * 10 ^ nd\<bar> / 10 ^ nd = 1 / (2 * 10 ^ nd)"
      unfolding m scale .
    then have "\<bar>of_int r - x * 10 ^ nd\<bar> / 10 ^ nd * 10 ^ nd = 1 / (2 * 10 ^ nd) * 10 ^ nd"
      by (rule arg_cong)
    then have "\<bar>of_int r - x * 10 ^ nd\<bar> = 1 / 2" by simp
    then have "even r" unfolding r_def by (rule round_half_even_tie)
    then show "even (nat r)" using r0 by (simp add: even_nat_iff)
  qed
  have "str_round x nd = str_decimal nd False (nat r)"
    using assms by (simp add: str_round_def r_def)
  then show ?thesis using near tie by blast
qed

text \<open>
  Claim C8. For a size \<open>n\<close> below \<open>2\<close> to the power 53 bytes (where the two float
  divisions are exact) the size string is: below 1024, the decimal numeral of \<open>n\<close> and
  \<open>B\<close>; below 1,048,576, the number of tenths \<open>m\<close> nearest to \<open>n / 1024\<close> (the even one of
  two equally near), printed as the numeral of \<open>m div 10\<close>, a point and the last digit of
  \<open>m\<close>, and \<open>KB\<close>; otherwise the number of hundredths \<open>m\<close> nearest to \<open>n / 1,048,576\<close>,
  printed as the numeral of \<open>m div 100\<close>, a point and the two last digits of \<open>m\<close> without a
  final zero, and \<open>MB\<close>.
\<close>

theorem size_str_rounding:
  assumes "file_size < 2 ^ 53"
  shows "(file_size < 1024 \<longrightarrow>
            (\<exists>ds. decimal_numeral ds file_size \<and> size_str file_size = ds @ '' B'')) \<and>
         (1024 \<le> file_size \<and> file_size < 1048576 \<longrightarrow>
            (\<exists>m ds. \<bar>of_nat m / 10 - of_nat file_size / 1024\<bar> \<le> (1 / 20 :: rat) \<and>
                 (\<bar>of_nat m / 10 - of_nat file_size / 1024\<bar> = (1 / 20 :: rat) \<longrightarrow> even m) \<and>
                 decimal_numeral ds (m div 10) \<and>
                 size_str file_size = ds @ ''.'' @ [''0123456789'' ! (m mod 10)] @ '' KB'')) \<and>
         (1048576 \<le> file_size \<longrightarrow>
            (\<exists>m ds. \<bar>of_nat m / 100 - of_nat file_size / 1048576\<bar> \<le> (1 / 200 :: rat) \<and>
                 (\<bar>of_nat m / 100 - of_nat file_size / 1048576\<bar> = (1 / 200 :: rat) \<longrightarrow>
                    even m) \<and>
                 decimal_numeral ds (m div 100) \<and>
                 size_str file_size = ds @ ''.'' @
                   (if m mod 10 = 0 then [''0123456789'' ! (m mod 100 div 10)]
                    else [''0123456789'' ! (m mod 100 div 10), ''0123456789'' ! (m mod 10)]) @
                   '' MB'')) \<and>
         size_str 500 = ''500 B'' \<and> size_str 2048 = ''2.0 KB'' \<and>
         size_str 3145728 = ''3.0 MB''"
proof -
  have b: "file_size < 1024 \<longrightarrow>
            (\<exists>ds. decimal_numeral ds file_size \<and> size_str file_size = ds @ '' B'')"
  proof
    assume "file_size < 1024"
    then have "size_str file_size = str_nat file_size @ '' B''"
      by (simp add: size_str_def str_int_def)
    then show "\<exists>ds. decimal_numeral ds file_size \<and> size_str file_size = ds @ '' B''"
      using str_nat_numeral[of file_size] by blast
  qed
  have td10: "true_div (int file_size) 1024 = of_nat file_size / 1024"
    using true_div_pow2[OF assms, of 10] by simp
  have td20: "true_div (int file_size) 1048576 = of_nat file_size / 1048576"
    using true_div_pow2[OF assms, of 20] by simp
  have kb: "1024 \<le> file_size \<and> file_size < 1048576 \<longrightarrow>
            (\<exists>m ds. \<bar>of_nat m / 10 - of_nat file_size / 1024\<bar> \<le> (1 / 20 :: rat) \<and>
                 (\<bar>of_nat m / 10 - of_nat file_size / 1024\<bar> = (1 / 20 :: rat) \<longrightarrow> even m) \<and>
                 decimal_numeral ds (m div 10) \<and>
                 size_str file_size = ds @ ''.'' @ [''0123456789'' ! (m mod 10)] @ '' KB'')"
  proof
    assume r: "1024 \<le> file_size \<and> file_size < 1048576"
    then have s: "size_str file_size = str_round (of_nat file_size / 1024) 1 @ '' KB''"
      by (simp add: size_str_def td10)
    have "(0::rat) \<le> of_nat file_size / 1024" by simp
    from str_round_pinned[OF this, of 1] obtain m where
      m: "str_round (of_nat file_size / 1024) 1 = str_decimal 1 False m"
      "\<bar>of_nat m / 10 ^ 1 - of_nat file_size / 1024\<bar> \<le> (1 / (2 * 10 ^ 1) :: rat)"
      "\<bar>of_nat m / 10 ^ 1 - of_nat file_size / 1024\<bar> = (1 / (2 * 10 ^ 1) :: rat) \<longrightarrow> even m"
      by blast
    have "\<bar>of_nat m / 10 - of_nat file_size / 1024\<bar> \<le> (1 / 20 :: rat)" using m(2) by simp
    moreover have "\<bar>of_nat m / 10 - of_nat file_size / 1024\<bar> = (1 / 20 :: rat) \<longrightarrow> even m"
      using m(3) by simp
    moreover have "decimal_numeral (str_nat (m div 10)) (m div 10)" by (rule str_nat_numeral)
    moreover have "size_str file_size =
        str_nat (m div 10) @ ''.'' @ [''0123456789'' ! (m mod 10)] @ '' KB''"
      unfolding s m(1) str_decimal_1 by simp
    ultimately show "\<exists>m ds. \<bar>of_nat m / 10 - of_nat file_size / 1024\<bar> \<le> (1 / 20 :: rat) \<and>
                 (\<bar>of_nat m / 10 - of_nat file_size / 1024\<bar> = (1 / 20 :: rat) \<longrightarrow> even m) \<and>
                 decimal_numeral ds (m div 10) \<and>
                 size_str file_size = ds @ ''.'' @ [''0123456789'' ! (m mod 10)] @ '' KB''"
      by blast
  qed
  have mb: "1048576 \<le> file_size \<longrightarrow>
            (\<exists>m ds. \<bar>of_nat m / 100 - of_nat file_size / 1048576\<bar> \<le> (1 / 200 :: rat) \<and>
                 (\<bar>of_nat m / 100 - of_nat file_size / 1048576\<bar> = (1 / 200 :: rat) \<longrightarrow>
                    even m) \<and>
                 decimal_numeral ds (m div 100) \<and>
                 size_str file_size = ds @ ''.'' @
                   (if m mod 10 = 0 then [''0123456789'' ! (m mod 100 div 10)]
                    else [''0123456789'' ! (m mod 100 div 10), ''0123456789'' ! (m mod 10)]) @
                   '' MB'')"
  proof
    assume r: "1048576 \<le> file_size"
    then have s: "size_str file_size = str_round (of_nat file_size / 1048576) 2 @ '' MB''"
      by (simp add: size_str_def td20)
    have "(0::rat) \<le> of_nat file_size / 1048576" by simp
    from str_round_pinned[OF this, of 2] obtain m where
      m: "str_round (of_nat file_size / 1048576) 2 = str_decimal 2 False m"
      "\<bar>of_nat m / 10 ^ 2 - of_nat file_size / 1048576\<bar> \<le> (1 / (2 * 10 ^ 2) :: rat)"
      "\<bar>of_nat m / 10 ^ 2 - of_nat file_size / 1048576\<bar> = (1 / (2 * 10 ^ 2) :: rat) \<longrightarrow>
         even m"
      by blast
    have "\<bar>of_nat m / 100 - of_nat file_size / 1048576\<bar> \<le> (1 / 200 :: rat)"
      using m(2) by simp
    moreover have "\<bar>of_nat m / 100 - of_nat file_size / 1048576\<bar> = (1 / 200 :: rat) \<longrightarrow>
        even m"
      using m(3) by simp
    moreover have "decimal_numeral (str_nat (m div 100)) (m div 100)" by (rule str_nat_numeral)
    moreover have "size_str file_size = str_nat (m div 100) @ ''.'' @
                   (if m mod 10 = 0 then [''0123456789'' ! (m mod 100 div 10)]
                    else [''0123456789'' ! (m mod 100 div 10), ''0123456789'' ! (m mod 10)]) @
                   '' MB''"
      unfolding s m(1) str_decimal_2 by simp
    ultimately show "\<exists>m ds. \<bar>of_nat m / 100 - of_nat file_size / 1048576\<bar> \<le> (1 / 200 :: rat) \<and>
                 (\<bar>of_nat m / 100 - of_nat file_size / 1048576\<bar> = (1 / 200 :: rat) \<longrightarrow>
                    even m) \<and>
                 decimal_numeral ds (m div 100) \<and>
                 size_str file_size = ds @ ''.'' @
                   (if m mod 10 = 0 then [''0123456789'' ! (m mod 100 div 10)]
                    else [''0123456789'' ! (m mod 100 div 10), ''0123456789'' ! (m mod 10)]) @
                   '' MB''"
      by blast
  qed
  show ?thesis
    using b kb mb size_str_500 size_str_2048 size_str_3145728 by (intro conjI)
qed

lemma str_nat_1: "str_nat 1 = ''1''"
  by code_simp

theorem size_str_rounding_witness:
  "(1280::nat) < 2 ^ 53 \<and> (1024::nat) \<le> 1280 \<and> (1280::nat) < 1048576 \<and>
   size_str 1280 = ''1.2 KB'' \<and>
   (1536::nat) < 2 ^ 53 \<and> (1024::nat) \<le> 1536 \<and> (1536::nat) < 1048576 \<and>
   size_str 1536 = ''1.5 KB''"
proof -
  have h1: "(1280::nat) < 2 ^ 53" by simp
  have r1: "(1024::nat) \<le> 1280 \<and> (1280::nat) < 1048576" by simp
  from size_str_rounding[OF h1] r1 obtain m ds where
    n: "\<bar>of_nat m / 10 - of_nat 1280 / 1024\<bar> \<le> (1 / 20 :: rat)" and
    t: "\<bar>of_nat m / 10 - of_nat 1280 / 1024\<bar> = (1 / 20 :: rat) \<longrightarrow> even m" and
    d: "decimal_numeral ds (m div 10)" and
    s: "size_str 1280 = ds @ ''.'' @ [''0123456789'' ! (m mod 10)] @ '' KB''"
    by blast
  have "\<bar>of_nat m / 10 - 5 / 4\<bar> \<le> (1 / 20 :: rat)" using n by simp
  then have "(of_nat m :: rat) \<le> 13" "(12 :: rat) \<le> of_nat m" by linarith+
  then have "(of_nat m :: rat) \<le> of_nat 13" "(of_nat 12 :: rat) \<le> of_nat m" by simp_all
  then have "m \<le> 13" "12 \<le> m" by (simp_all only: of_nat_le_iff)
  then have "m = 12 \<or> m = 13" by arith
  moreover have "m \<noteq> 13" using t by auto
  ultimately have m: "m = 12" by blast
  have "ds = str_nat 1" using d decimal_numeral_unique[of ds "m div 10"] by (simp add: m)
  then have a: "size_str 1280 = ''1.2 KB''" using s by (simp add: m str_nat_1[unfolded One_nat_def])
  have h2: "(1536::nat) < 2 ^ 53" by simp
  have r2: "(1024::nat) \<le> 1536 \<and> (1536::nat) < 1048576" by simp
  from size_str_rounding[OF h2] r2 obtain m' ds' where
    n': "\<bar>of_nat m' / 10 - of_nat 1536 / 1024\<bar> \<le> (1 / 20 :: rat)" and
    d': "decimal_numeral ds' (m' div 10)" and
    s': "size_str 1536 = ds' @ ''.'' @ [''0123456789'' ! (m' mod 10)] @ '' KB''"
    by blast
  have "\<bar>of_nat m' / 10 - 3 / 2\<bar> \<le> (1 / 20 :: rat)" using n' by simp
  then have "(of_nat m' :: rat) < 16" "(14 :: rat) < of_nat m'" by linarith+
  then have "(of_nat m' :: rat) < of_nat 16" "(of_nat 14 :: rat) < of_nat m'" by simp_all
  then have "m' < 16" "14 < m'" by (simp_all only: of_nat_less_iff)
  then have m': "m' = 15" by arith
  have "ds' = str_nat 1" using d' decimal_numeral_unique[of ds' "m' div 10"] by (simp add: m')
  then have b: "size_str 1536 = ''1.5 KB''" using s' by (simp add: m' str_nat_1[unfolded One_nat_def])
  show ?thesis using h1 r1 a h2 r2 b by blast
qed

end
